theory Spec2Isabelle
  imports Complex_Main
begin

section \<open>Data model of \<^verbatim>\<open>src/canvas.tsx\<close>\<close>

text \<open>
  The component keeps its whole state in React state cells and reads the canvas through
  a ref.
\<close>

subsection \<open>Numbers\<close>

text \<open>
  A JavaScript \<^verbatim>\<open>number\<close> is an IEEE 754 double. A finite double is modelled by the real
  number it stands for, and \<^verbatim>\<open>+\<close> and \<^verbatim>\<open>-\<close> return the exact result rounded to the
  nearest double, a tie going to the even significand: 53 significant bits, the exponent
  of the leading bit not below -1022. A result beyond the range of the doubles, the
  infinities, \<^verbatim>\<open>NaN\<close> and the sign of zero are outside the model: the coordinates that
  reach the handlers are pixel coordinates.
\<close>

definition round_half_even :: "real \<Rightarrow> int" where
  "round_half_even q =
     (let n = \<lfloor>q\<rfloor>; r = q - of_int n
      in if r < 1 / 2 then n else if 1 / 2 < r then n + 1 else if even n then n else n + 1)"

definition exponent :: "real \<Rightarrow> int" where
  "exponent v = max \<lfloor>log 2 \<bar>v\<bar>\<rfloor> (- 1022)"

definition ulp :: "real \<Rightarrow> real" where
  \<comment> \<open>the distance between neighbouring doubles around \<open>v\<close>\<close>
  "ulp v = 2 powi (exponent v - 52)"

definition round_double :: "real \<Rightarrow> real" where
  "round_double v = (if v = 0 then 0 else ulp v * of_int (round_half_even (v / ulp v)))"

definition fadd :: "real \<Rightarrow> real \<Rightarrow> real" where
  \<comment> \<open>\<^verbatim>\<open>a + b\<close>\<close>
  "fadd a b = round_double (a + b)"

definition fsub :: "real \<Rightarrow> real \<Rightarrow> real" where
  \<comment> \<open>\<^verbatim>\<open>a - b\<close>\<close>
  "fsub a b = round_double (a - b)"

subsection \<open>Points and strokes\<close>

record Point =
  x :: real
  y :: real

record Stroke =
  points :: "Point list"
  color :: string
  position :: Point

text \<open>
  What goes wrong is a value. \<open>TypeError\<close> and \<open>SyntaxError\<close> are the exceptions the
  runtime raises (the string says which read raised); \<open>NotAStrokeList\<close> is not an exception:
  it records that \<^verbatim>\<open>setStrokes\<close> was given a value that is no \<^verbatim>\<open>Stroke[]\<close>, after which
  the state of the component is no longer described by the typed record below.
\<close>

datatype json =
  JNull | JBool bool | JNum real | JStr string | JArr "json list" | JObj "(string \<times> json) list"

datatype failure = TypeError string | SyntaxError string | NotAStrokeList "json option"

subsection \<open>Geometry\<close>

text \<open>
  \<^verbatim>\<open>Math.hypot\<close> is the runtime's, and the language leaves its result to the
  implementation (an approximation of the root of the sum of squares): it is a parameter.
\<close>

definition isClosedPath :: "(real \<Rightarrow> real \<Rightarrow> real) \<Rightarrow> Point list \<Rightarrow> bool" where
  "isClosedPath Math_hypot stroke =
     (if length stroke < 2 then False
      else let start = stroke ! 0; end = stroke ! (length stroke - 1)
           in Math_hypot (fsub (x end) (x start)) (fsub (y end) (y start)) < 10)"

subsection \<open>The rendering surface\<close>

text \<open>
  The 2D context belongs to the browser. Of its operations the state of the component
  depends on one only, \<^verbatim>\<open>isPointInPath\<close>, which is a parameter here: it receives the path
  that was traced since \<^verbatim>\<open>beginPath\<close> and the query point. \<open>canvasRef.current\<close> may be
  \<^verbatim>\<open>null\<close>, and \<^verbatim>\<open>getContext("2d")\<close> may return \<^verbatim>\<open>null\<close>.
\<close>

datatype path_cmd = MoveTo real real | LineTo real real | ClosePath

record Context2D =
  isPointInPath :: "path_cmd list \<Rightarrow> real \<Rightarrow> real \<Rightarrow> bool"

record Canvas =
  getContext2d :: "Context2D option"
  rect_left :: real
  rect_top :: real
  toDataURL :: string

type_synonym canvas_ref = "Canvas option"

definition trace_path :: "Point list \<Rightarrow> path_cmd list" where
  \<comment> \<open>\<^verbatim>\<open>points.forEach((point, i) => i === 0 ? ctx.moveTo(..) : ctx.lineTo(..))\<close>\<close>
  "trace_path pts =
     map (\<lambda>(i, point). if i = 0 then MoveTo (x point) (y point) else LineTo (x point) (y point))
       (enumerate 0 pts)"

definition isInsideStroke :: "canvas_ref \<Rightarrow> Point list \<Rightarrow> real \<Rightarrow> real \<Rightarrow> bool" where
  "isInsideStroke canvasRef pts px py =
     (case Option.bind canvasRef getContext2d of
        None \<Rightarrow> False
      | Some ctx \<Rightarrow> isPointInPath ctx (trace_path pts @ [ClosePath]) px py)"

definition adjustedPoints :: "Stroke \<Rightarrow> Point list" where
  "adjustedPoints stroke =
     map (\<lambda>p. \<lparr>x = fadd (x p) (x (position stroke)), y = fadd (y p) (y (position stroke))\<rparr>)
       (points stroke)"

text \<open>
  The loop \<^verbatim>\<open>for (let i = strokes.length - 1; i >= 0; i--)\<close>: the counter of \<open>scan_from\<close>
  is \<open>i + 1\<close>, so that \<open>0\<close> is the exit of the loop.
\<close>

fun scan_from :: "canvas_ref \<Rightarrow> Stroke list \<Rightarrow> real \<Rightarrow> real \<Rightarrow> nat \<Rightarrow> nat option" where
  "scan_from canvasRef ss px py 0 = None"
| "scan_from canvasRef ss px py (Suc i) =
     (if isInsideStroke canvasRef (adjustedPoints (ss ! i)) px py then Some i
      else scan_from canvasRef ss px py i)"

definition findClickedStrokeIndex :: "canvas_ref \<Rightarrow> Stroke list \<Rightarrow> real \<Rightarrow> real \<Rightarrow> nat option" where
  "findClickedStrokeIndex canvasRef ss px py = scan_from canvasRef ss px py (length ss)"

subsection \<open>State of the component and its event handlers\<close>

text \<open>
  A handler reads the state of the last render and queues its updates; the model applies
  them at once and returns the state of the next render. A handler that raises is
  modelled by the failure alone.
\<close>

record Canvas_state =
  isDrawing :: bool
  strokes :: "Stroke list"
  currentStroke :: "Point list"
  fillColor :: string
  isDragging :: bool
  draggedStrokeIndex :: "nat option"
  dragOffset :: "Point option"

definition initial_state :: Canvas_state where
  "initial_state =
     \<lparr>isDrawing = False, strokes = [], currentStroke = [], fillColor = ''#cdecde'',
      isDragging = False, draggedStrokeIndex = None, dragOffset = None\<rparr>"

record MouseEvent =
  offsetX :: real
  offsetY :: real

record Touch =
  clientX :: real
  clientY :: real

record TouchEvent =
  touches :: "Touch list"

definition repositionStroke :: "nat \<Rightarrow> Point \<Rightarrow> Stroke list \<Rightarrow> Stroke list" where
  \<comment> \<open>the updater \<^verbatim>\<open>prev => prev.map((stroke, index) => ...)\<close> of both move handlers\<close>
  "repositionStroke dragged newPosition prev =
     map (\<lambda>(index, stroke).
            if index = dragged then stroke\<lparr>position := newPosition\<rparr> else stroke)
       (enumerate 0 prev)"

definition liveFeedback :: "Canvas \<Rightarrow> Point list \<Rightarrow> real \<Rightarrow> real \<Rightarrow> failure + path_cmd list" where
  \<comment> \<open>the segment drawn during a move; \<^verbatim>\<open>currentStroke[currentStroke.length - 1]\<close> is
      \<^verbatim>\<open>undefined\<close> on an empty buffer, and reading \<^verbatim>\<open>.x\<close> of it raises\<close>
  "liveFeedback canvas buffer px py =
     (case getContext2d canvas of
        None \<Rightarrow> Inr []
      | Some context \<Rightarrow>
          if buffer = [] then Inl (TypeError ''lastPoint is undefined'')
          else let lastPoint = buffer ! (length buffer - 1)
               in Inr [MoveTo (x lastPoint) (y lastPoint), LineTo px py])"

definition handleMouseDown :: "canvas_ref \<Rightarrow> MouseEvent \<Rightarrow> Canvas_state \<Rightarrow> Canvas_state" where
  "handleMouseDown canvasRef e s =
     (case findClickedStrokeIndex canvasRef (strokes s) (offsetX e) (offsetY e) of
        Some clickedStrokeIndex \<Rightarrow>
          let stroke = strokes s ! clickedStrokeIndex
          in s\<lparr>isDragging := True,
               draggedStrokeIndex := Some clickedStrokeIndex,
               dragOffset := Some \<lparr>x = fsub (offsetX e) (x (position stroke)),
                                   y = fsub (offsetY e) (y (position stroke))\<rparr>\<rparr>
      | None \<Rightarrow>
          s\<lparr>currentStroke := [\<lparr>x = offsetX e, y = offsetY e\<rparr>], isDrawing := True\<rparr>)"

definition handleMouseMove :: "canvas_ref \<Rightarrow> MouseEvent \<Rightarrow> Canvas_state \<Rightarrow> failure + Canvas_state" where
  "handleMouseMove canvasRef e s =
     (if isDragging s \<and> draggedStrokeIndex s \<noteq> None \<and> dragOffset s \<noteq> None then
        let newPosition = \<lparr>x = fsub (offsetX e) (x (the (dragOffset s))),
                           y = fsub (offsetY e) (y (the (dragOffset s)))\<rparr>
        in Inr (s\<lparr>strokes := repositionStroke (the (draggedStrokeIndex s)) newPosition (strokes s)\<rparr>)
      else if isDrawing s \<and> canvasRef \<noteq> None then
        (case liveFeedback (the canvasRef) (currentStroke s) (offsetX e) (offsetY e) of
           Inl err \<Rightarrow> Inl err
         | Inr segment \<Rightarrow>
             Inr (s\<lparr>currentStroke := currentStroke s @ [\<lparr>x = offsetX e, y = offsetY e\<rparr>]\<rparr>))
      else Inr s)"

definition handleMouseUp :: "Canvas_state \<Rightarrow> Canvas_state" where
  "handleMouseUp s =
     (if isDragging s then
        s\<lparr>isDragging := False, draggedStrokeIndex := None, dragOffset := None\<rparr>
      else if isDrawing s \<and> length (currentStroke s) > 0 then
        s\<lparr>strokes := strokes s @
                      [\<lparr>points = currentStroke s, color = fillColor s,
                        position = \<lparr>x = 0, y = 0\<rparr>\<rparr>],
          currentStroke := [],
          isDrawing := False\<rparr>
      else s)"

definition handleTouchStart :: "canvas_ref \<Rightarrow> TouchEvent \<Rightarrow> Canvas_state \<Rightarrow> failure + Canvas_state" where
  "handleTouchStart canvasRef e s =
     (case canvasRef of
        None \<Rightarrow> Inr s
      | Some canvas \<Rightarrow>
          (case touches e of
             [] \<Rightarrow> Inl (TypeError ''touch is undefined'')
           | touch # _ \<Rightarrow>
               let px = fsub (clientX touch) (rect_left canvas);
                   py = fsub (clientY touch) (rect_top canvas)
               in (case findClickedStrokeIndex canvasRef (strokes s) px py of
                     Some clickedStrokeIndex \<Rightarrow>
                       let stroke = strokes s ! clickedStrokeIndex
                       in Inr (s\<lparr>isDragging := True,
                                 draggedStrokeIndex := Some clickedStrokeIndex,
                                 dragOffset := Some \<lparr>x = fsub px (x (position stroke)),
                                                     y = fsub py (y (position stroke))\<rparr>\<rparr>)
                   | None \<Rightarrow>
                       Inr (s\<lparr>currentStroke := [\<lparr>x = px, y = py\<rparr>], isDrawing := True\<rparr>))))"

definition handleTouchMove :: "canvas_ref \<Rightarrow> TouchEvent \<Rightarrow> Canvas_state \<Rightarrow> failure + Canvas_state" where
  "handleTouchMove canvasRef e s =
     (if isDragging s \<and> draggedStrokeIndex s \<noteq> None \<and> dragOffset s \<noteq> None then
        (case canvasRef of
           None \<Rightarrow> Inr s
         | Some canvas \<Rightarrow>
             (case touches e of
                [] \<Rightarrow> Inl (TypeError ''touch is undefined'')
              | touch # _ \<Rightarrow>
                  let px = fsub (clientX touch) (rect_left canvas);
                      py = fsub (clientY touch) (rect_top canvas);
                      newPosition = \<lparr>x = fsub px (x (the (dragOffset s))),
                                     y = fsub py (y (the (dragOffset s)))\<rparr>
                  in Inr (s\<lparr>strokes :=
                              repositionStroke (the (draggedStrokeIndex s)) newPosition (strokes s)\<rparr>)))
      else if isDrawing s \<and> canvasRef \<noteq> None then
        (case touches e of
           [] \<Rightarrow> Inl (TypeError ''touch is undefined'')
         | touch # _ \<Rightarrow>
             let px = fsub (clientX touch) (rect_left (the canvasRef));
                 py = fsub (clientY touch) (rect_top (the canvasRef))
             in (case liveFeedback (the canvasRef) (currentStroke s) px py of
                   Inl err \<Rightarrow> Inl err
                 | Inr segment \<Rightarrow>
                     Inr (s\<lparr>currentStroke := currentStroke s @ [\<lparr>x = px, y = py\<rparr>]\<rparr>)))
      else Inr s)"

definition handleTouchEnd :: "Canvas_state \<Rightarrow> Canvas_state" where
  "handleTouchEnd s =
     (if isDragging s then
        s\<lparr>isDragging := False, draggedStrokeIndex := None, dragOffset := None\<rparr>
      else if isDrawing s \<and> length (currentStroke s) > 0 then
        s\<lparr>strokes := strokes s @
                      [\<lparr>points = currentStroke s, color = fillColor s,
                        position = \<lparr>x = 0, y = 0\<rparr>\<rparr>],
          currentStroke := [],
          isDrawing := False\<rparr>
      else s)"

subsection \<open>The controls below the canvas\<close>

definition slice :: "'a list \<Rightarrow> int \<Rightarrow> int \<Rightarrow> 'a list" where
  \<comment> \<open>\<^verbatim>\<open>Array.prototype.slice(start, end)\<close>: a negative index counts from the end, and
      both are clamped to the array\<close>
  "slice xs start end =
     (let len = int (length xs);
          k = (if start < 0 then max (len + start) 0 else min start len);
          final = (if end < 0 then max (len + end) 0 else min end len)
      in take (nat (final - k)) (drop (nat k) xs))"

definition undo :: "Canvas_state \<Rightarrow> Canvas_state" where
  \<comment> \<open>\<^verbatim>\<open>setStrokes((prev) => prev.slice(0, -1))\<close>\<close>
  "undo s = s\<lparr>strokes := slice (strokes s) 0 (- 1)\<rparr>"

definition setFillColor :: "string \<Rightarrow> Canvas_state \<Rightarrow> Canvas_state" where
  "setFillColor c s = s\<lparr>fillColor := c\<rparr>"

subsection \<open>Persistence\<close>

text \<open>
  \<^verbatim>\<open>JSON.stringify\<close> and \<^verbatim>\<open>JSON.parse\<close> are the runtime's. The text of a file is
  represented by what the two observations the code makes of it yield: whether it is the
  empty string (the only falsy text), and what \<^verbatim>\<open>JSON.parse\<close> returns for it, a syntax
  error or the value it denotes. \<^verbatim>\<open>JSON.stringify\<close> of a value built from finite numbers,
  strings, arrays and plain objects is the text that denotes it.
\<close>

datatype file_text = EmptyText | NotJSON | JsonText json

definition JSON_parse :: "file_text \<Rightarrow> failure + json" where
  "JSON_parse text =
     (case text of
        EmptyText \<Rightarrow> Inl (SyntaxError ''Unexpected end of JSON input'')
      | NotJSON \<Rightarrow> Inl (SyntaxError ''Unexpected token'')
      | JsonText v \<Rightarrow> Inr v)"

definition JSON_stringify :: "json \<Rightarrow> file_text" where
  "JSON_stringify v = JsonText v"

definition get_property :: "json \<Rightarrow> string \<Rightarrow> json option" where
  \<comment> \<open>the property \<open>key\<close> of a value other than \<^verbatim>\<open>null\<close>, for a key that no prototype
      defines; \<open>None\<close> is \<^verbatim>\<open>undefined\<close>. An object is the list of its properties, each
      key once.\<close>
  "get_property v key = (case v of JObj props \<Rightarrow> map_of props key | _ \<Rightarrow> None)"

text \<open>The runtime shape of the typed values, as \<^verbatim>\<open>JSON.stringify\<close> sees them.\<close>

definition Point_to_json :: "Point \<Rightarrow> json" where
  "Point_to_json p = JObj [(''x'', JNum (x p)), (''y'', JNum (y p))]"

definition Stroke_to_json :: "Stroke \<Rightarrow> json" where
  "Stroke_to_json stroke =
     JObj [(''points'', JArr (map Point_to_json (points stroke))),
           (''color'', JStr (color stroke)),
           (''position'', Point_to_json (position stroke))]"

definition strokes_to_json :: "Stroke list \<Rightarrow> json" where
  "strokes_to_json ss = JArr (map Stroke_to_json ss)"

text \<open>When a runtime value is a \<^verbatim>\<open>Point\<close>, a \<^verbatim>\<open>Stroke\<close>, a \<^verbatim>\<open>Stroke[]\<close> of the interfaces.\<close>

definition as_Point :: "json \<Rightarrow> Point option" where
  "as_Point v =
     (case (get_property v ''x'', get_property v ''y'') of
        (Some (JNum a), Some (JNum b)) \<Rightarrow> Some \<lparr>x = a, y = b\<rparr>
      | _ \<Rightarrow> None)"

definition as_Points :: "json \<Rightarrow> Point list option" where
  "as_Points v = (case v of JArr vs \<Rightarrow> those (map as_Point vs) | _ \<Rightarrow> None)"

definition as_Stroke :: "json \<Rightarrow> Stroke option" where
  "as_Stroke v =
     (case (get_property v ''points'', get_property v ''color'', get_property v ''position'') of
        (Some pv, Some (JStr c), Some posv) \<Rightarrow>
          (case (as_Points pv, as_Point posv) of
             (Some ps, Some pos) \<Rightarrow> Some \<lparr>points = ps, color = c, position = pos\<rparr>
           | _ \<Rightarrow> None)
      | _ \<Rightarrow> None)"

definition as_Strokes :: "json option \<Rightarrow> Stroke list option" where
  "as_Strokes v = (case v of Some (JArr vs) \<Rightarrow> those (map as_Stroke vs) | _ \<Rightarrow> None)"

definition saveAsCustomFormat :: "canvas_ref \<Rightarrow> Canvas_state \<Rightarrow> file_text option" where
  \<comment> \<open>the content of the downloaded \<^verbatim>\<open>drawing.draw\<close>; \<open>None\<close> when the canvas is missing
      and nothing is written\<close>
  "saveAsCustomFormat canvasRef s =
     (case canvasRef of
        None \<Rightarrow> None
      | Some canvas \<Rightarrow>
          let backgroundImage = toDataURL canvas;
              data = JSON_stringify
                       (JObj [(''backgroundImage'', JStr backgroundImage),
                              (''strokes'', strokes_to_json (strokes s))])
          in Some data)"

text \<open>
  What \<^verbatim>\<open>reader.onload\<close> does with the text read (\<open>None\<close>: no result): it returns at
  once, it raises, or it calls \<^verbatim>\<open>setStrokes(loadedStrokes)\<close> and, when canvas and context
  are there, starts loading the image \<^verbatim>\<open>backgroundImage\<close>.
\<close>

datatype load_outcome =
  LoadSkipped
  | LoadThrew failure
  | LoadApplied (loadedStrokes: "json option") (img_src: "json option option")

definition loadCustomFormat_onload :: "canvas_ref \<Rightarrow> file_text option \<Rightarrow> load_outcome" where
  "loadCustomFormat_onload canvasRef result =
     (case result of
        None \<Rightarrow> LoadSkipped
      | Some text \<Rightarrow>
          if text = EmptyText then LoadSkipped
          else
            (case JSON_parse text of
               Inl err \<Rightarrow> LoadThrew err
             | Inr parsed \<Rightarrow>
                 if parsed = JNull then LoadThrew (TypeError ''cannot destructure null'')
                 else
                   let backgroundImage = get_property parsed ''backgroundImage'';
                       loadedStrokes = get_property parsed ''strokes''
                   in LoadApplied loadedStrokes
                        (case canvasRef of
                           None \<Rightarrow> None
                         | Some canvas \<Rightarrow>
                             (case getContext2d canvas of
                                None \<Rightarrow> None
                              | Some context \<Rightarrow> Some backgroundImage))))"

definition loadCustomFormat :: "canvas_ref \<Rightarrow> file_text option \<Rightarrow> Canvas_state \<Rightarrow> failure + Canvas_state" where
  \<comment> \<open>the state after \<^verbatim>\<open>reader.onload\<close>\<close>
  "loadCustomFormat canvasRef result s =
     (case loadCustomFormat_onload canvasRef result of
        LoadSkipped \<Rightarrow> Inr s
      | LoadThrew err \<Rightarrow> Inl err
      | LoadApplied v src \<Rightarrow>
          (case as_Strokes v of
             None \<Rightarrow> Inl (NotAStrokeList v)
           | Some ss \<Rightarrow> Inr (s\<lparr>strokes := ss\<rparr>)))"

definition well_formed_record :: "json \<Rightarrow> bool" where
  \<comment> \<open>the record of the file format: an object whose \<^verbatim>\<open>backgroundImage\<close> is a string and
      whose \<^verbatim>\<open>strokes\<close> is a sequence of stroke records\<close>
  "well_formed_record v =
     (case get_property v ''backgroundImage'' of
        Some (JStr bg) \<Rightarrow> as_Strokes (get_property v ''strokes'') \<noteq> None
      | _ \<Rightarrow> False)"

subsection \<open>Events and runs\<close>

datatype event =
  MouseDown MouseEvent | MouseMove MouseEvent | MouseUp | MouseLeave
  | TouchStart TouchEvent | TouchMove TouchEvent | TouchEnd
  | UndoClick | ColorChange string | FileLoaded "file_text option"

fun step :: "canvas_ref \<Rightarrow> event \<Rightarrow> Canvas_state \<Rightarrow> failure + Canvas_state" where
  "step canvasRef (MouseDown e) s = Inr (handleMouseDown canvasRef e s)"
| "step canvasRef (MouseMove e) s = handleMouseMove canvasRef e s"
| "step canvasRef MouseUp s = Inr (handleMouseUp s)"
| "step canvasRef MouseLeave s = Inr (handleMouseUp s)"
| "step canvasRef (TouchStart e) s = handleTouchStart canvasRef e s"
| "step canvasRef (TouchMove e) s = handleTouchMove canvasRef e s"
| "step canvasRef TouchEnd s = Inr (handleTouchEnd s)"
| "step canvasRef UndoClick s = Inr (undo s)"
| "step canvasRef (ColorChange c) s = Inr (setFillColor c s)"
| "step canvasRef (FileLoaded result) s = loadCustomFormat canvasRef result s"

text \<open>A run stops at the first failure.\<close>

fun run :: "canvas_ref \<Rightarrow> event list \<Rightarrow> Canvas_state \<Rightarrow> failure + Canvas_state" where
  "run canvasRef [] s = Inr s"
| "run canvasRef (ev # evs) s =
     (case step canvasRef ev s of Inl err \<Rightarrow> Inl err | Inr s' \<Rightarrow> run canvasRef evs s')"

text \<open>
  The canvas-local coordinates a touch event stands for: the first touch, relative to the
  bounding rectangle of the canvas. There are none without a canvas or without a touch.
\<close>

definition touch_local :: "canvas_ref \<Rightarrow> TouchEvent \<Rightarrow> (real \<times> real) option" where
  "touch_local canvasRef e =
     (case (canvasRef, touches e) of
        (Some canvas, touch # _) \<Rightarrow>
          Some (fsub (clientX touch) (rect_left canvas), fsub (clientY touch) (rect_top canvas))
      | _ \<Rightarrow> None)"

text \<open>
  A touch event corresponds to the mouse event with the same canvas-local coordinates,
  and the controls of the host correspond to themselves.
\<close>

fun corresponds :: "canvas_ref \<Rightarrow> event \<Rightarrow> event \<Rightarrow> bool" where
  "corresponds canvasRef (TouchStart t) (MouseDown m) =
     (touch_local canvasRef t = Some (offsetX m, offsetY m))"
| "corresponds canvasRef (TouchMove t) (MouseMove m) =
     (touch_local canvasRef t = Some (offsetX m, offsetY m))"
| "corresponds canvasRef TouchEnd MouseUp = True"
| "corresponds canvasRef UndoClick UndoClick = True"
| "corresponds canvasRef (ColorChange a) (ColorChange b) = (a = b)"
| "corresponds canvasRef (FileLoaded a) (FileLoaded b) = (a = b)"
| "corresponds canvasRef _ _ = False"

text \<open>The pointer position of a down or move event, and the two kinds of event.\<close>

fun pointer_of :: "canvas_ref \<Rightarrow> event \<Rightarrow> (real \<times> real) option" where
  "pointer_of canvasRef (MouseDown m) = Some (offsetX m, offsetY m)"
| "pointer_of canvasRef (MouseMove m) = Some (offsetX m, offsetY m)"
| "pointer_of canvasRef (TouchStart t) = touch_local canvasRef t"
| "pointer_of canvasRef (TouchMove t) = touch_local canvasRef t"
| "pointer_of canvasRef _ = None"

fun is_down :: "event \<Rightarrow> bool" where
  "is_down (MouseDown m) = True"
| "is_down (TouchStart t) = True"
| "is_down _ = False"

fun is_move :: "event \<Rightarrow> bool" where
  "is_move (MouseMove m) = True"
| "is_move (TouchMove t) = True"
| "is_move _ = False"

subsection \<open>Arrays and objects as references\<close>

text \<open>
  Whether an array or an object is the same one as before is a question about references,
  which the values above do not have. For the updater of the move handlers there is a
  second model on a heap: an address is an index into the list of allocated cells, and
  allocation appends. A stroke object holds the reference of its \<^verbatim>\<open>points\<close> array.
\<close>

type_synonym ref = nat

datatype cell = StrokeArray "ref list" | StrokeObject ref string Point | PointArray "Point list"

type_synonym heap = "cell list"

definition deref :: "heap \<Rightarrow> ref \<Rightarrow> cell option" where
  "deref h r = (if r < length h then Some (h ! r) else None)"

definition alloc :: "cell \<Rightarrow> heap \<Rightarrow> ref \<times> heap" where
  "alloc c h = (length h, h @ [c])"

text \<open>
  The callback of \<^verbatim>\<open>prev.map\<close>, element by element: \<^verbatim>\<open>{ ...stroke, position: newPosition }\<close>
  allocates an object with the fields of \<^verbatim>\<open>stroke\<close> copied, the other elements are
  returned as they are. \<open>None\<close>: an element is not a stroke object.
\<close>

fun map_reposition :: "nat \<Rightarrow> Point \<Rightarrow> nat \<Rightarrow> ref list \<Rightarrow> heap \<Rightarrow> (ref list \<times> heap) option" where
  "map_reposition dragged newPosition index [] h = Some ([], h)"
| "map_reposition dragged newPosition index (r # rs) h =
     (if index = dragged then
        (case deref h r of
           Some (StrokeObject pts col pos) \<Rightarrow>
             (let (r', h') = alloc (StrokeObject pts col newPosition) h
              in map_option (\<lambda>(rs', h''). (r' # rs', h''))
                   (map_reposition dragged newPosition (Suc index) rs h'))
         | _ \<Rightarrow> None)
      else map_option (\<lambda>(rs', h''). (r # rs', h''))
             (map_reposition dragged newPosition (Suc index) rs h))"

definition repositionStroke_heap :: "nat \<Rightarrow> Point \<Rightarrow> ref \<Rightarrow> heap \<Rightarrow> (ref \<times> heap) option" where
  \<comment> \<open>\<^verbatim>\<open>prev.map(...)\<close>: the result array is created first and filled with what the
      callback returns\<close>
  "repositionStroke_heap dragged newPosition prev h =
     (case deref h prev of
        Some (StrokeArray rs) \<Rightarrow>
          (let (a, h1) = alloc (StrokeArray []) h
           in (case map_reposition dragged newPosition 0 rs h1 of
                 None \<Rightarrow> None
               | Some (rs', h2) \<Rightarrow> Some (a, h2[a := StrokeArray rs'])))
      | _ \<Rightarrow> None)"

definition read_Stroke :: "heap \<Rightarrow> ref \<Rightarrow> Stroke option" where
  "read_Stroke h r =
     (case deref h r of
        Some (StrokeObject pr col pos) \<Rightarrow>
          (case deref h pr of
             Some (PointArray ps) \<Rightarrow> Some \<lparr>points = ps, color = col, position = pos\<rparr>
           | _ \<Rightarrow> None)
      | _ \<Rightarrow> None)"

definition read_strokes :: "heap \<Rightarrow> ref \<Rightarrow> Stroke list option" where
  "read_strokes h a =
     (case deref h a of Some (StrokeArray rs) \<Rightarrow> those (map (read_Stroke h) rs) | _ \<Rightarrow> None)"

definition elements :: "heap \<Rightarrow> ref \<Rightarrow> ref list" where
  \<comment> \<open>the references held by a stroke array\<close>
  "elements h a = (case deref h a of Some (StrokeArray rs) \<Rightarrow> rs | _ \<Rightarrow> [])"

definition points_ref :: "heap \<Rightarrow> ref \<Rightarrow> ref option" where
  \<comment> \<open>the reference in the field \<^verbatim>\<open>points\<close> of a stroke object\<close>
  "points_ref h r = (case deref h r of Some (StrokeObject pr col pos) \<Rightarrow> Some pr | _ \<Rightarrow> None)"

subsection \<open>A concrete surface\<close>

text \<open>
  A surface to run the handlers on: its containment test is the bounding box of the
  vertices of the path, its bounding rectangle starts at (8, 8).
\<close>

fun vertex :: "path_cmd \<Rightarrow> (real \<times> real) list" where
  "vertex (MoveTo a b) = [(a, b)]"
| "vertex (LineTo a b) = [(a, b)]"
| "vertex ClosePath = []"

definition box_isPointInPath :: "path_cmd list \<Rightarrow> real \<Rightarrow> real \<Rightarrow> bool" where
  "box_isPointInPath path px py =
     (let vs = concat (map vertex path)
      in list_ex (\<lambda>v. fst v \<le> px) vs \<and> list_ex (\<lambda>v. px \<le> fst v) vs \<and>
         list_ex (\<lambda>v. snd v \<le> py) vs \<and> list_ex (\<lambda>v. py \<le> snd v) vs)"

definition box_canvas :: Canvas where
  "box_canvas =
     \<lparr>getContext2d = Some \<lparr>isPointInPath = box_isPointInPath\<rparr>,
      rect_left = 8, rect_top = 8, toDataURL = ''data:image/png;base64,iVBORw0KGgo=''\<rparr>"

definition square :: "real \<Rightarrow> real \<Rightarrow> real \<Rightarrow> string \<Rightarrow> Stroke" where
  \<comment> \<open>a closed square stroke of side \<open>d\<close> drawn from \<open>(a, b)\<close>\<close>
  "square a b d c =
     \<lparr>points = [\<lparr>x = a, y = b\<rparr>, \<lparr>x = a + d, y = b\<rparr>, \<lparr>x = a + d, y = b + d\<rparr>,
                \<lparr>x = a, y = b + d\<rparr>, \<lparr>x = a, y = b + 1\<rparr>],
      color = c, position = \<lparr>x = 0, y = 0\<rparr>\<rparr>"

definition hypot_rounded :: "real \<Rightarrow> real \<Rightarrow> real" where
  \<comment> \<open>a \<^verbatim>\<open>Math.hypot\<close>: the exact root, rounded to the nearest double\<close>
  "hypot_rounded a b = round_double (sqrt (a\<^sup>2 + b\<^sup>2))"

text \<open>The doubles that the literals 0.1, 0.2, 0.7, 0.8, 0.9 and 10.7 denote.\<close>

definition dbl_0_1 :: real where "dbl_0_1 = 3602879701896397 / 36028797018963968"
definition dbl_0_2 :: real where "dbl_0_2 = 3602879701896397 / 18014398509481984"
definition dbl_0_7 :: real where "dbl_0_7 = 3152519739159347 / 4503599627370496"
definition dbl_0_8 :: real where "dbl_0_8 = 3602879701896397 / 4503599627370496"
definition dbl_0_9 :: real where "dbl_0_9 = 8106479329266893 / 9007199254740992"
definition dbl_10_7 :: real where "dbl_10_7 = 3011782250804019 / 281474976710656"

definition two_squares :: Canvas_state where
  \<comment> \<open>two committed strokes, the second one inside the first\<close>
  "two_squares =
     initial_state\<lparr>strokes := [square 0 0 20 ''#ff0000'', square 5 5 10 ''#00ff00'']\<rparr>"

definition shifted_squares :: Canvas_state where
  \<comment> \<open>two committed strokes that have been dragged: a large square now at (-50, -50),
      and on top of it a small one now at (100, 100)\<close>
  "shifted_squares =
     initial_state\<lparr>strokes :=
       [(square 0 0 200 ''#ff0000'')\<lparr>position := \<lparr>x = - 50, y = - 50\<rparr>\<rparr>,
        (square 0 0 10 ''#00ff00'')\<lparr>position := \<lparr>x = 100, y = 100\<rparr>\<rparr>]\<rparr>"

definition nudged :: Canvas_state where
  \<comment> \<open>a unit square that has been dragged to the double 0.1\<close>
  "nudged =
     initial_state\<lparr>strokes := [(square 0 0 1 ''#ff0000'')\<lparr>position := \<lparr>x = dbl_0_1, y = 0\<rparr>\<rparr>]\<rparr>"



definition tapped :: Canvas_state where
  \<comment> \<open>the state after a pointer-down at (5, 5) on the empty canvas\<close>
  "tapped = initial_state\<lparr>currentStroke := [\<lparr>x = 5, y = 5\<rparr>], isDrawing := True\<rparr>"

definition two_strokes_heap :: heap where
  \<comment> \<open>a heap with two stroke objects, their point arrays, and at address 4 the array
      that holds the two\<close>
  "two_strokes_heap =
     [PointArray [\<lparr>x = 0, y = 0\<rparr>, \<lparr>x = 3, y = 4\<rparr>],
      StrokeObject 0 ''#ff0000'' \<lparr>x = 0, y = 0\<rparr>,
      PointArray [\<lparr>x = 5, y = 5\<rparr>],
      StrokeObject 2 ''#00ff00'' \<lparr>x = 1, y = 1\<rparr>,
      StrokeArray [1, 3]]"

section \<open>Rounding to a double\<close>

lemma round_half_even_of_int: "round_half_even (of_int m) = m"
  by (simp add: round_half_even_def)

lemma floor_log2_eq:
  assumes "2 powi e \<le> v" and "v < 2 powi (e + 1)"
  shows "\<lfloor>log 2 v\<rfloor> = e"
proof -
  have pos: "0 < v" using assms(1) by (smt (verit) zero_less_power_int)
  have p: "(2::real) powi k = 2 powr real_of_int k" for k
    by (simp add: powr_real_of_int')
  have "real_of_int e \<le> log 2 v"
    using assms(1) pos by (simp add: p le_log_iff)
  moreover have "log 2 v < real_of_int e + 1"
    using assms(2) pos by (simp add: p log_less_iff add.commute)
  ultimately show ?thesis by (simp add: floor_eq_iff)
qed

lemma exponent_eq:
  assumes "2 powi e \<le> \<bar>v\<bar>" and "\<bar>v\<bar> < 2 powi (e + 1)" and "- 1022 \<le> e"
  shows "exponent v = e"
  using floor_log2_eq [OF assms(1,2)] assms(3) by (simp add: exponent_def)

text \<open>Rounding a value whose binade is known is a computation on rationals.\<close>

lemma round_double_eval:
  assumes "2 powi e \<le> \<bar>v\<bar>" and "\<bar>v\<bar> < 2 powi (e + 1)" and "- 1022 \<le> e"
  shows "round_double v = 2 powi (e - 52) * of_int (round_half_even (v / 2 powi (e - 52)))"
proof -
  have "v \<noteq> 0" using assms(1) by (smt (verit) zero_less_power_int)
  then show ?thesis
    by (simp add: round_double_def ulp_def exponent_eq [OF assms])
qed

text \<open>A double is rounded to itself.\<close>

lemma round_double_exact:
  assumes v: "v = of_int m * 2 powi k" and m: "\<bar>m\<bar> < 2 ^ 53" and k: "- 1074 \<le> k"
  shows "round_double v = v"
proof (cases "v = 0")
  case True
  then show ?thesis by (simp add: round_double_def)
next
  case False
  have p: "(2::real) powi j = 2 powr real_of_int j" for j
    by (simp add: powr_real_of_int')
  have "\<bar>v\<bar> = of_int \<bar>m\<bar> * 2 powi k"
    by (simp add: v abs_mult)
  also have "\<dots> < 2 ^ 53 * 2 powi k"
  proof -
    have "real_of_int \<bar>m\<bar> < 2 ^ 53" using m by (metis of_int_less_numeral_power_cancel_iff)
    then show ?thesis by (simp add: zero_less_power_int)
  qed
  also have "\<dots> = 2 powi (53 + k)"
    by (simp add: power_int_add)
  finally have lt: "\<bar>v\<bar> < 2 powi (53 + k)" .
  have "log 2 \<bar>v\<bar> < real_of_int (53 + k)"
    using lt False by (simp add: p log_less_iff)
  then have "\<lfloor>log 2 \<bar>v\<bar>\<rfloor> < 53 + k"
    by (simp add: floor_less_iff)
  then have e: "exponent v - 52 \<le> k"
    using k by (simp add: exponent_def)
  define d where "d = nat (k - (exponent v - 52))"
  have kd: "k = (exponent v - 52) + int d"
    using e by (simp add: d_def)
  have "(2::real) powi k = 2 powi (exponent v - 52) * 2 ^ d"
    by (subst kd) (simp add: power_int_add)
  then have vu: "v = ulp v * of_int (m * 2 ^ d)"
    by (simp add: v ulp_def)
  have "ulp v \<noteq> 0" by (simp add: ulp_def)
  then have "v / ulp v = of_int (m * 2 ^ d)"
    using vu by (metis nonzero_mult_div_cancel_left)
  then have "round_half_even (v / ulp v) = m * 2 ^ d"
    by (simp only: round_half_even_of_int)
  then show ?thesis
    using False vu by (simp add: round_double_def)
qed

lemma round_double_of_int: "\<bar>n\<bar> < 2 ^ 53 \<Longrightarrow> round_double (of_int n) = of_int n"
  using round_double_exact [of "of_int n" n 0] by simp

lemma round_double_numeral:
  "(numeral w :: int) < 9007199254740992 \<Longrightarrow> round_double (numeral w) = numeral w"
  using round_double_of_int [of "numeral w"] by simp

lemma round_double_neg_numeral:
  "(numeral w :: int) < 9007199254740992 \<Longrightarrow> round_double (- numeral w) = - numeral w"
  using round_double_of_int [of "- numeral w"] by simp

lemma round_double_0: "round_double 0 = 0"
  by (simp add: round_double_def)

lemma round_double_1: "round_double 1 = 1"
  using round_double_of_int [of 1] by simp

lemmas round_double_ints =
  round_double_numeral round_double_neg_numeral round_double_0 round_double_1

section \<open>Closed-path detection\<close>

lemma sqrt_25: "sqrt 25 = 5"
  using real_sqrt_abs [of 5] by simp

lemma sqrt_100: "sqrt 100 = 10"
  using real_sqrt_abs [of 10] by simp

lemma fsub_10_7_0_7: "fsub dbl_10_7 dbl_0_7 = 10"
  by (simp add: fsub_def dbl_10_7_def dbl_0_7_def round_double_eval [where e = 3]
      round_half_even_def power_int_minus)

text \<open>
  C3, as the code has it. \<open>isClosedPath P\<close> is true exactly when \<open>P\<close> has at least two
  points and the distance as the code computes it is strictly below 10: \<^verbatim>\<open>Math.hypot\<close>
  of the differences between the coordinates of the last and of the first point, taken
  in double arithmetic. Where neither difference is rounded and \<^verbatim>\<open>Math.hypot\<close> returns
  the exact root, this is the Euclidean distance. A sequence of fewer than two points is
  never closed, whatever its coordinates.
\<close>

theorem isClosedPath_iff:
  "(isClosedPath Math_hypot P \<longleftrightarrow>
      2 \<le> length P \<and>
      Math_hypot (fsub (x (last P)) (x (hd P))) (fsub (y (last P)) (y (hd P))) < 10)
   \<and> (length P < 2 \<longrightarrow> \<not> isClosedPath Math_hypot P)
   \<and> (2 \<le> length P
        \<and> fsub (x (last P)) (x (hd P)) = x (last P) - x (hd P)
        \<and> fsub (y (last P)) (y (hd P)) = y (last P) - y (hd P)
        \<and> Math_hypot (x (last P) - x (hd P)) (y (last P) - y (hd P))
            = sqrt ((x (last P) - x (hd P))\<^sup>2 + (y (last P) - y (hd P))\<^sup>2) \<longrightarrow>
        (isClosedPath Math_hypot P \<longleftrightarrow>
           sqrt ((x (last P) - x (hd P))\<^sup>2 + (y (last P) - y (hd P))\<^sup>2) < 10))"
proof (cases "length P < 2")
  case True
  then show ?thesis by (simp add: isClosedPath_def)
next
  case False
  then have ne: "P \<noteq> []" by auto
  have "P ! 0 = hd P" using ne by (simp add: hd_conv_nth)
  moreover have "P ! (length P - 1) = last P" using ne by (simp add: last_conv_nth)
  ultimately have "isClosedPath Math_hypot P \<longleftrightarrow>
      Math_hypot (fsub (x (last P)) (x (hd P))) (fsub (y (last P)) (y (hd P))) < 10"
    using False by (simp add: isClosedPath_def Let_def)
  then show ?thesis using False by auto
qed

theorem isClosedPath_iff_witness:
  "length [\<lparr>x = 3, y = 4\<rparr>] < 2 \<and> \<not> isClosedPath hypot_rounded [\<lparr>x = 3, y = 4\<rparr>]
   \<and> 2 \<le> length [\<lparr>x = 0, y = 0\<rparr>, \<lparr>x = 50, y = 0\<rparr>, \<lparr>x = 3, y = 4\<rparr>]
   \<and> fsub 3 0 = 3 - 0 \<and> fsub 4 0 = 4 - 0
   \<and> hypot_rounded (3 - 0) (4 - 0) = sqrt ((3 - 0)\<^sup>2 + (4 - 0)\<^sup>2)
   \<and> isClosedPath hypot_rounded [\<lparr>x = 0, y = 0\<rparr>, \<lparr>x = 50, y = 0\<rparr>, \<lparr>x = 3, y = 4\<rparr>]
   \<and> \<not> isClosedPath hypot_rounded [\<lparr>x = 0, y = 0\<rparr>, \<lparr>x = 6, y = 8\<rparr>]"
proof -
  have s: "fsub 3 0 = 3" "fsub 4 0 = 4" "fsub 6 0 = 6" "fsub 8 0 = 8"
    by (simp_all add: fsub_def round_double_ints)
  have h: "hypot_rounded 3 4 = 5" "hypot_rounded 6 8 = 10"
    by (simp_all add: hypot_rounded_def sqrt_25 sqrt_100 round_double_ints)
  show ?thesis
    using isClosedPath_iff [of hypot_rounded "[\<lparr>x = 3, y = 4\<rparr>]"]
      isClosedPath_iff [of hypot_rounded "[\<lparr>x = 0, y = 0\<rparr>, \<lparr>x = 50, y = 0\<rparr>, \<lparr>x = 3, y = 4\<rparr>]"]
      isClosedPath_iff [of hypot_rounded "[\<lparr>x = 0, y = 0\<rparr>, \<lparr>x = 6, y = 8\<rparr>]"]
      s h
    by (simp add: sqrt_25)
qed

text \<open>
  Two points on a horizontal line, at the doubles 0.7 and 10.7. Their Euclidean distance
  is below 10, but the difference of the coordinates is rounded to 10, of which
  \<^verbatim>\<open>Math.hypot\<close> is 10: the path is not closed.
\<close>

theorem isClosedPath_iff_counterexample:
  "2 \<le> length [\<lparr>x = dbl_0_7, y = 0\<rparr>, \<lparr>x = dbl_10_7, y = 0\<rparr>]
   \<and> sqrt ((dbl_10_7 - dbl_0_7)\<^sup>2 + (0 - 0)\<^sup>2) < 10
   \<and> fsub dbl_10_7 dbl_0_7 = 10 \<and> hypot_rounded 10 0 = 10
   \<and> \<not> isClosedPath hypot_rounded [\<lparr>x = dbl_0_7, y = 0\<rparr>, \<lparr>x = dbl_10_7, y = 0\<rparr>]"
proof -
  have d: "sqrt ((dbl_10_7 - dbl_0_7)\<^sup>2 + (0 - 0)\<^sup>2) < 10"
    by (simp add: dbl_10_7_def dbl_0_7_def)
  have h: "hypot_rounded 10 0 = 10"
    by (simp add: hypot_rounded_def round_double_ints)
  have z: "fsub 0 0 = 0"
    by (simp add: fsub_def round_double_ints)
  show ?thesis
    using d h z fsub_10_7_0_7 by (simp add: isClosedPath_def)
qed

section \<open>Undo\<close>

lemma slice_drops_last: "slice xs 0 (- 1) = butlast xs"
proof -
  have "nat (max (int (length xs) - 1) 0) = length xs - 1" by simp
  then show ?thesis by (simp add: slice_def butlast_conv_take Let_def)
qed

text \<open>
  C8. Undo removes exactly the last element of a non-empty stroke list and nothing else;
  on an empty list it changes nothing and raises nothing, so that two undos in a row on
  an empty list leave it empty both times.
\<close>

theorem undo_removes_last:
  "undo s = s\<lparr>strokes := butlast (strokes s)\<rparr>
   \<and> (strokes s \<noteq> [] \<longrightarrow>
        strokes (undo s) @ [last (strokes s)] = strokes s
        \<and> length (strokes (undo s)) = length (strokes s) - 1)
   \<and> (strokes s = [] \<longrightarrow> undo s = s \<and> undo (undo s) = s)
   \<and> step c UndoClick s = Inr (undo s)"
  by (auto simp: undo_def slice_drops_last)

theorem undo_removes_last_witness:
  "strokes two_squares \<noteq> []
   \<and> strokes (undo two_squares) @ [square 5 5 10 ''#00ff00''] = strokes two_squares
   \<and> strokes initial_state = []
   \<and> undo initial_state = initial_state \<and> undo (undo initial_state) = initial_state"
proof -
  have ne: "strokes two_squares \<noteq> []"
    and l: "last (strokes two_squares) = square 5 5 10 ''#00ff00''"
    by (simp_all add: two_squares_def)
  have e: "strokes initial_state = []"
    by (simp add: initial_state_def)
  from undo_removes_last [of two_squares] ne l
  have "strokes (undo two_squares) @ [square 5 5 10 ''#00ff00''] = strokes two_squares"
    by metis
  moreover from undo_removes_last [of initial_state] e
  have "undo initial_state = initial_state \<and> undo (undo initial_state) = initial_state"
    by blast
  ultimately show ?thesis using ne e by blast
qed

section \<open>Committing a stroke\<close>





section \<open>Hit testing\<close>

lemma scan_from_Some_iff:
  "scan_from c ss px py n = Some i \<longleftrightarrow>
     i < n \<and> isInsideStroke c (adjustedPoints (ss ! i)) px py
     \<and> (\<forall>j. i < j \<and> j < n \<longrightarrow> \<not> isInsideStroke c (adjustedPoints (ss ! j)) px py)"
proof (induction n)
  case 0
  then show ?case by simp
next
  case (Suc n)
  show ?case
  proof (cases "isInsideStroke c (adjustedPoints (ss ! n)) px py")
    case True
    then show ?thesis
      by (metis less_Suc_eq linorder_neqE_nat not_less_eq option.inject scan_from.simps(2))
  next
    case False
    then show ?thesis using Suc
      by (metis less_Suc_eq scan_from.simps(2))
  qed
qed

lemma scan_from_None_iff:
  "scan_from c ss px py n = None \<longleftrightarrow>
     (\<forall>j<n. \<not> isInsideStroke c (adjustedPoints (ss ! j)) px py)"
  by (induction n) (auto simp: less_Suc_eq)

lemma shifted_squares_hits:
  "isInsideStroke (Some box_canvas) (adjustedPoints (strokes shifted_squares ! 0)) 105 105"
  "isInsideStroke (Some box_canvas) (adjustedPoints (strokes shifted_squares ! 1)) 105 105"
  "isInsideStroke (Some box_canvas) (adjustedPoints (strokes shifted_squares ! 0)) 5 5"
  "\<not> isInsideStroke (Some box_canvas) (adjustedPoints (strokes shifted_squares ! 1)) 5 5"
  "isInsideStroke (Some box_canvas) (points (strokes shifted_squares ! 1)) 5 5"
  by (simp_all add: shifted_squares_def square_def isInsideStroke_def adjustedPoints_def
      trace_path_def box_canvas_def box_isPointInPath_def fadd_def round_double_ints)

lemma shifted_squares_hit:
  "findClickedStrokeIndex (Some box_canvas) (strokes shifted_squares) 105 105 = Some 1"
proof -
  have "length (strokes shifted_squares) = Suc (Suc 0)"
    by (simp add: shifted_squares_def)
  then show ?thesis
    using shifted_squares_hits(2) by (simp add: findClickedStrokeIndex_def)
qed

text \<open>
  C5. Pointer-down scans the committed strokes from the last to the first, testing the
  pointer against the points of each stroke shifted by the position of that stroke (the
  sum of the coordinates, in double arithmetic), and selects the first one that contains
  it: the result is \<open>i\<close> exactly when stroke \<open>i\<close> contains the pointer and no later
  stroke does, it is \<^verbatim>\<open>null\<close> exactly when no stroke contains it, and the selected
  stroke is the one that is dragged. Of two strokes that both contain the pointer, the
  one committed later is selected.
\<close>

theorem hit_test_precedence:
  "adjustedPoints st =
     map (\<lambda>p. \<lparr>x = fadd (x p) (x (position st)), y = fadd (y p) (y (position st))\<rparr>) (points st)
   \<and> (findClickedStrokeIndex c (strokes s) px py = Some i \<longleftrightarrow>
      i < length (strokes s) \<and> isInsideStroke c (adjustedPoints (strokes s ! i)) px py
      \<and> (\<forall>j. i < j \<and> j < length (strokes s) \<longrightarrow>
             \<not> isInsideStroke c (adjustedPoints (strokes s ! j)) px py))
   \<and> (findClickedStrokeIndex c (strokes s) px py = None \<longleftrightarrow>
        (\<forall>j<length (strokes s). \<not> isInsideStroke c (adjustedPoints (strokes s ! j)) px py))
   \<and> (findClickedStrokeIndex c (strokes s) px py = Some i \<longrightarrow>
        isDragging (handleMouseDown c \<lparr>offsetX = px, offsetY = py\<rparr> s)
        \<and> draggedStrokeIndex (handleMouseDown c \<lparr>offsetX = px, offsetY = py\<rparr> s) = Some i)
   \<and> (strokes s = [A, B] \<and> isInsideStroke c (adjustedPoints A) px py
        \<and> isInsideStroke c (adjustedPoints B) px py \<longrightarrow>
        findClickedStrokeIndex c (strokes s) px py = Some 1
        \<and> draggedStrokeIndex (handleMouseDown c \<lparr>offsetX = px, offsetY = py\<rparr> s) = Some 1)"
proof -
  let ?f = "findClickedStrokeIndex c (strokes s) px py"
  let ?s' = "handleMouseDown c \<lparr>offsetX = px, offsetY = py\<rparr> s"
  have shift: "adjustedPoints st =
     map (\<lambda>p. \<lparr>x = fadd (x p) (x (position st)), y = fadd (y p) (y (position st))\<rparr>) (points st)"
    by (simp add: adjustedPoints_def)
  have a: "?f = Some i \<longleftrightarrow>
      i < length (strokes s) \<and> isInsideStroke c (adjustedPoints (strokes s ! i)) px py
      \<and> (\<forall>j. i < j \<and> j < length (strokes s) \<longrightarrow>
             \<not> isInsideStroke c (adjustedPoints (strokes s ! j)) px py)"
    unfolding findClickedStrokeIndex_def by (rule scan_from_Some_iff)
  have b: "?f = None \<longleftrightarrow>
        (\<forall>j<length (strokes s). \<not> isInsideStroke c (adjustedPoints (strokes s ! j)) px py)"
    unfolding findClickedStrokeIndex_def by (rule scan_from_None_iff)
  have c: "isDragging ?s' \<and> draggedStrokeIndex ?s' = Some k" if "?f = Some k" for k
    using that by (simp add: handleMouseDown_def Let_def)
  have d: "?f = Some 1"
    if "strokes s = [A, B]" and "isInsideStroke c (adjustedPoints B) px py"
    using that by (simp add: findClickedStrokeIndex_def numeral_2_eq_2)
  show ?thesis
    using shift a b c [of i] c [of 1] d by blast
qed

text \<open>
  On the two dragged squares: at (105, 105) both contain the pointer and the later one is
  selected; at (5, 5) the recorded points of the later one contain the pointer but its
  shifted points do not, and the earlier one is selected.
\<close>

theorem hit_test_precedence_witness:
  "strokes shifted_squares = [strokes shifted_squares ! 0, strokes shifted_squares ! 1]
   \<and> isInsideStroke (Some box_canvas) (adjustedPoints (strokes shifted_squares ! 0)) 105 105
   \<and> isInsideStroke (Some box_canvas) (adjustedPoints (strokes shifted_squares ! 1)) 105 105
   \<and> findClickedStrokeIndex (Some box_canvas) (strokes shifted_squares) 105 105 = Some 1
   \<and> draggedStrokeIndex
        (handleMouseDown (Some box_canvas) \<lparr>offsetX = 105, offsetY = 105\<rparr> shifted_squares)
       = Some 1
   \<and> isInsideStroke (Some box_canvas) (points (strokes shifted_squares ! 1)) 5 5
   \<and> \<not> isInsideStroke (Some box_canvas) (adjustedPoints (strokes shifted_squares ! 1)) 5 5
   \<and> findClickedStrokeIndex (Some box_canvas) (strokes shifted_squares) 5 5 = Some 0
   \<and> draggedStrokeIndex
        (handleMouseDown (Some box_canvas) \<lparr>offsetX = 5, offsetY = 5\<rparr> shifted_squares)
       = Some 0
   \<and> adjustedPoints (strokes shifted_squares ! 1)
       = [\<lparr>x = 100, y = 100\<rparr>, \<lparr>x = 110, y = 100\<rparr>, \<lparr>x = 110, y = 110\<rparr>,
          \<lparr>x = 100, y = 110\<rparr>, \<lparr>x = 100, y = 101\<rparr>]"
proof -
  have l: "strokes shifted_squares = [strokes shifted_squares ! 0, strokes shifted_squares ! 1]"
    and n: "length (strokes shifted_squares) = 2"
    by (simp_all add: shifted_squares_def)
  have j: "j = 1" if "0 < j" and "j < length (strokes shifted_squares)" for j
    using that n by simp
  have none_above: "\<forall>j. 0 < j \<and> j < length (strokes shifted_squares) \<longrightarrow>
      \<not> isInsideStroke (Some box_canvas) (adjustedPoints (strokes shifted_squares ! j)) 5 5"
  proof (intro allI impI)
    fix j
    assume "0 < j \<and> j < length (strokes shifted_squares)"
    then have "j = 1" using j by blast
    then show "\<not> isInsideStroke (Some box_canvas) (adjustedPoints (strokes shifted_squares ! j)) 5 5"
      using shifted_squares_hits(4) by simp
  qed
  have nonempty: "0 < length (strokes shifted_squares)"
    using n by simp
  have first: "findClickedStrokeIndex (Some box_canvas) (strokes shifted_squares) 5 5 = Some 0"
    using hit_test_precedence [of "strokes shifted_squares ! 1" "Some box_canvas"
        shifted_squares 5 5 0 "strokes shifted_squares ! 0" "strokes shifted_squares ! 1"]
      shifted_squares_hits(3) none_above nonempty
    by blast
  have shifted: "adjustedPoints (strokes shifted_squares ! 1)
       = [\<lparr>x = 100, y = 100\<rparr>, \<lparr>x = 110, y = 100\<rparr>, \<lparr>x = 110, y = 110\<rparr>,
          \<lparr>x = 100, y = 110\<rparr>, \<lparr>x = 100, y = 101\<rparr>]"
    using hit_test_precedence [of "strokes shifted_squares ! 1" "Some box_canvas"
        shifted_squares 5 5 0 "strokes shifted_squares ! 0" "strokes shifted_squares ! 1"]
    by (simp add: shifted_squares_def square_def fadd_def round_double_ints)
  show ?thesis
    using hit_test_precedence [of "strokes shifted_squares ! 1" "Some box_canvas"
        shifted_squares 105 105 1 "strokes shifted_squares ! 0" "strokes shifted_squares ! 1"]
      hit_test_precedence [of "strokes shifted_squares ! 1" "Some box_canvas"
        shifted_squares 5 5 0 "strokes shifted_squares ! 0" "strokes shifted_squares ! 1"]
      l shifted_squares_hits first shifted
    by blast
qed

section \<open>Dragging\<close>

lemma length_repositionStroke: "length (repositionStroke d np ss) = length ss"
  by (simp add: repositionStroke_def)

lemma nth_repositionStroke:
  "j < length ss \<Longrightarrow>
     repositionStroke d np ss ! j = (if j = d then (ss ! j)\<lparr>position := np\<rparr> else ss ! j)"
  by (simp add: repositionStroke_def nth_enumerate_eq)

lemma step_move_dragging:
  assumes "isDragging s" and "draggedStrokeIndex s = Some i" and "dragOffset s = Some off"
    and "is_move ev" and "pointer_of c ev = Some q"
  shows "step c ev s =
           Inr (s\<lparr>strokes := repositionStroke i \<lparr>x = fsub (fst q) (x off), y = fsub (snd q) (y off)\<rparr> (strokes s)\<rparr>)"
proof (cases ev)
  case (MouseMove m)
  with assms show ?thesis by (auto simp: handleMouseMove_def)
next
  case (TouchMove t)
  with assms show ?thesis
    by (auto simp: handleTouchMove_def touch_local_def split: option.splits list.splits)
qed (use assms in auto)

lemma run_moves_dragging:
  assumes "isDragging s" and "draggedStrokeIndex s = Some i" and "dragOffset s = Some off"
    and "i < length (strokes s)"
    and "\<forall>ev\<in>set moves. is_move ev \<and> pointer_of c ev \<noteq> None"
  shows "\<exists>s'. run c moves s = Inr s' \<and> isDragging s' \<and> draggedStrokeIndex s' = Some i
           \<and> dragOffset s' = Some off \<and> length (strokes s') = length (strokes s)
           \<and> points (strokes s' ! i) = points (strokes s ! i)
           \<and> color (strokes s' ! i) = color (strokes s ! i)
           \<and> (\<forall>j<length (strokes s). j \<noteq> i \<longrightarrow> strokes s' ! j = strokes s ! j)
           \<and> (\<forall>q. moves \<noteq> [] \<and> pointer_of c (last moves) = Some q \<longrightarrow>
                  position (strokes s' ! i) = \<lparr>x = fsub (fst q) (x off), y = fsub (snd q) (y off)\<rparr>)"
  using assms
proof (induction moves arbitrary: s)
  case Nil
  then show ?case by simp
next
  case (Cons ev moves)
  from Cons.prems obtain q where q: "pointer_of c ev = Some q" and mv: "is_move ev"
    by auto
  let ?s1 = "s\<lparr>strokes := repositionStroke i \<lparr>x = fsub (fst q) (x off), y = fsub (snd q) (y off)\<rparr> (strokes s)\<rparr>"
  have st: "step c ev s = Inr ?s1"
    using Cons.prems(1-3) mv q by (rule step_move_dragging)
  have "\<exists>s'. run c moves ?s1 = Inr s' \<and> isDragging s' \<and> draggedStrokeIndex s' = Some i
           \<and> dragOffset s' = Some off \<and> length (strokes s') = length (strokes ?s1)
           \<and> points (strokes s' ! i) = points (strokes ?s1 ! i)
           \<and> color (strokes s' ! i) = color (strokes ?s1 ! i)
           \<and> (\<forall>j<length (strokes ?s1). j \<noteq> i \<longrightarrow> strokes s' ! j = strokes ?s1 ! j)
           \<and> (\<forall>q. moves \<noteq> [] \<and> pointer_of c (last moves) = Some q \<longrightarrow>
                  position (strokes s' ! i) = \<lparr>x = fsub (fst q) (x off), y = fsub (snd q) (y off)\<rparr>)"
    using Cons.prems by (intro Cons.IH) (simp_all add: length_repositionStroke)
  then obtain s' where s': "run c moves ?s1 = Inr s'" "isDragging s'" "draggedStrokeIndex s' = Some i"
      "dragOffset s' = Some off" "length (strokes s') = length (strokes ?s1)"
      "points (strokes s' ! i) = points (strokes ?s1 ! i)"
      "color (strokes s' ! i) = color (strokes ?s1 ! i)"
      "\<forall>j<length (strokes ?s1). j \<noteq> i \<longrightarrow> strokes s' ! j = strokes ?s1 ! j"
      "\<forall>q. moves \<noteq> [] \<and> pointer_of c (last moves) = Some q \<longrightarrow>
                  position (strokes s' ! i) = \<lparr>x = fsub (fst q) (x off), y = fsub (snd q) (y off)\<rparr>"
    by blast
  have r: "run c (ev # moves) s = Inr s'" using st s'(1) by simp
  have nil: "strokes s' = strokes ?s1" if "moves = []"
    using that s'(1) by simp
  have pos: "position (strokes s' ! i) = \<lparr>x = fsub (fst q') (x off), y = fsub (snd q') (y off)\<rparr>"
    if "pointer_of c (last (ev # moves)) = Some q'" for q'
  proof (cases "moves = []")
    case True
    with that q have "q' = q" by simp
    with nil [OF True] Cons.prems(4) show ?thesis by (simp add: nth_repositionStroke)
  next
    case False
    with that s'(9) show ?thesis by simp
  qed
  show ?case
    using r s'(2-8) pos Cons.prems(4)
    by (intro exI [of _ s']) (simp add: length_repositionStroke nth_repositionStroke)
qed


lemma step_down_hit:
  assumes "is_down start" and "pointer_of c start = Some (p0x, p0y)"
    and "findClickedStrokeIndex c (strokes s0) p0x p0y = Some i"
  shows "step c start s0 =
           Inr (s0\<lparr>isDragging := True, draggedStrokeIndex := Some i,
                    dragOffset := Some \<lparr>x = fsub p0x (x (position (strokes s0 ! i))),
                                        y = fsub p0y (y (position (strokes s0 ! i)))\<rparr>\<rparr>)"
proof (cases start)
  case (MouseDown m)
  with assms show ?thesis by (auto simp: handleMouseDown_def Let_def)
next
  case (TouchStart t)
  with assms show ?thesis
    by (auto simp: handleTouchStart_def touch_local_def Let_def split: option.splits list.splits)
qed (use assms in auto)

text \<open>
  C7, as the code has it. A drag session starts with a pointer-down at \<open>p0\<close> that hits
  stroke \<open>i\<close>, whose position is \<open>pos0\<close>: the drag offset becomes \<open>p0 - pos0\<close>, the
  difference in double arithmetic. Whatever move events follow, by mouse or by touch, the
  offset and the dragged index stay as they are, the recorded points of the stroke are
  untouched, and after a move at \<open>q\<close> the position of the stroke is \<open>q - dragOffset\<close>,
  again in double arithmetic. In a coordinate in which neither of the two subtractions is
  rounded, this is \<open>pos0 + (q - p0)\<close>.
\<close>

theorem drag_rigidity:
  assumes "is_down start" and "pointer_of c start = Some (p0x, p0y)"
    and "findClickedStrokeIndex c (strokes s0) p0x p0y = Some i"
    and "\<forall>ev\<in>set moves. is_move ev \<and> pointer_of c ev \<noteq> None"
  shows "\<exists>s1 s'. step c start s0 = Inr s1 \<and> run c moves s1 = Inr s'
           \<and> dragOffset s1 = Some \<lparr>x = fsub p0x (x (position (strokes s0 ! i))),
                                    y = fsub p0y (y (position (strokes s0 ! i)))\<rparr>
           \<and> dragOffset s' = dragOffset s1 \<and> draggedStrokeIndex s' = Some i \<and> isDragging s'
           \<and> points (strokes s' ! i) = points (strokes s0 ! i)
           \<and> (\<forall>qx qy. moves \<noteq> [] \<and> pointer_of c (last moves) = Some (qx, qy) \<longrightarrow>
                 position (strokes s' ! i) =
                   \<lparr>x = fsub qx (x (the (dragOffset s1))), y = fsub qy (y (the (dragOffset s1)))\<rparr>
                 \<and> (fsub p0x (x (position (strokes s0 ! i))) = p0x - x (position (strokes s0 ! i))
                    \<and> fsub qx (p0x - x (position (strokes s0 ! i)))
                        = qx - (p0x - x (position (strokes s0 ! i))) \<longrightarrow>
                    x (position (strokes s' ! i)) = x (position (strokes s0 ! i)) + (qx - p0x))
                 \<and> (fsub p0y (y (position (strokes s0 ! i))) = p0y - y (position (strokes s0 ! i))
                    \<and> fsub qy (p0y - y (position (strokes s0 ! i)))
                        = qy - (p0y - y (position (strokes s0 ! i))) \<longrightarrow>
                    y (position (strokes s' ! i)) = y (position (strokes s0 ! i)) + (qy - p0y)))"
proof -
  let ?off = "\<lparr>x = fsub p0x (x (position (strokes s0 ! i))),
               y = fsub p0y (y (position (strokes s0 ! i)))\<rparr>"
  let ?s1 = "s0\<lparr>isDragging := True, draggedStrokeIndex := Some i, dragOffset := Some ?off\<rparr>"
  have st: "step c start s0 = Inr ?s1"
    using assms(1-3) by (rule step_down_hit)
  have i: "i < length (strokes s0)"
    using assms(3) by (simp add: findClickedStrokeIndex_def scan_from_Some_iff)
  have "\<exists>s'. run c moves ?s1 = Inr s' \<and> isDragging s' \<and> draggedStrokeIndex s' = Some i
           \<and> dragOffset s' = Some ?off \<and> length (strokes s') = length (strokes ?s1)
           \<and> points (strokes s' ! i) = points (strokes ?s1 ! i)
           \<and> color (strokes s' ! i) = color (strokes ?s1 ! i)
           \<and> (\<forall>j<length (strokes ?s1). j \<noteq> i \<longrightarrow> strokes s' ! j = strokes ?s1 ! j)
           \<and> (\<forall>q. moves \<noteq> [] \<and> pointer_of c (last moves) = Some q \<longrightarrow>
                  position (strokes s' ! i) = \<lparr>x = fsub (fst q) (x ?off), y = fsub (snd q) (y ?off)\<rparr>)"
    using i assms(4) by (intro run_moves_dragging) simp_all
  then obtain s' where s': "run c moves ?s1 = Inr s'" "isDragging s'"
      "draggedStrokeIndex s' = Some i" "dragOffset s' = Some ?off"
      "points (strokes s' ! i) = points (strokes s0 ! i)"
      "\<forall>q. moves \<noteq> [] \<and> pointer_of c (last moves) = Some q \<longrightarrow>
                  position (strokes s' ! i) = \<lparr>x = fsub (fst q) (x ?off), y = fsub (snd q) (y ?off)\<rparr>"
    by auto
  have at_q: "position (strokes s' ! i) = \<lparr>x = fsub qx (x ?off), y = fsub qy (y ?off)\<rparr>"
    if "moves \<noteq> []" and "pointer_of c (last moves) = Some (qx, qy)" for qx qy
    using s'(6) that by simp
  have "position (strokes s' ! i) = \<lparr>x = fsub qx (x ?off), y = fsub qy (y ?off)\<rparr>
        \<and> (fsub p0x (x (position (strokes s0 ! i))) = p0x - x (position (strokes s0 ! i))
                    \<and> fsub qx (p0x - x (position (strokes s0 ! i)))
                        = qx - (p0x - x (position (strokes s0 ! i))) \<longrightarrow>
                    x (position (strokes s' ! i)) = x (position (strokes s0 ! i)) + (qx - p0x))
        \<and> (fsub p0y (y (position (strokes s0 ! i))) = p0y - y (position (strokes s0 ! i))
                    \<and> fsub qy (p0y - y (position (strokes s0 ! i)))
                        = qy - (p0y - y (position (strokes s0 ! i))) \<longrightarrow>
                    y (position (strokes s' ! i)) = y (position (strokes s0 ! i)) + (qy - p0y))"
    if "moves \<noteq> []" and "pointer_of c (last moves) = Some (qx, qy)" for qx qy
    using at_q [OF that] by simp
  then show ?thesis
    using st s'(1-5) by (intro exI [of _ ?s1] exI [of _ s']) simp
qed

text \<open>
  On the two dragged squares: the small one, at (100, 100), is grabbed at (105, 105) and
  moved by a mouse move and a touch move, the last at (20, 30).
\<close>

theorem drag_rigidity_witness:
  "is_down (MouseDown \<lparr>offsetX = 105, offsetY = 105\<rparr>)
   \<and> pointer_of (Some box_canvas) (MouseDown \<lparr>offsetX = 105, offsetY = 105\<rparr>) = Some (105, 105)
   \<and> findClickedStrokeIndex (Some box_canvas) (strokes shifted_squares) 105 105 = Some 1
   \<and> position (strokes shifted_squares ! 1) = \<lparr>x = 100, y = 100\<rparr>
   \<and> pointer_of (Some box_canvas) (TouchMove \<lparr>touches = [\<lparr>clientX = 28, clientY = 38\<rparr>]\<rparr>)
       = Some (20, 30)
   \<and> fsub 105 100 = 105 - 100 \<and> fsub 20 (105 - 100) = 20 - (105 - 100)
   \<and> fsub 30 (105 - 100) = 30 - (105 - 100)
   \<and> (\<exists>s1 s'. step (Some box_canvas) (MouseDown \<lparr>offsetX = 105, offsetY = 105\<rparr>) shifted_squares
                  = Inr s1
         \<and> run (Some box_canvas)
              [MouseMove \<lparr>offsetX = 9, offsetY = 12\<rparr>,
               TouchMove \<lparr>touches = [\<lparr>clientX = 28, clientY = 38\<rparr>]\<rparr>] s1 = Inr s'
         \<and> dragOffset s1 = Some \<lparr>x = 5, y = 5\<rparr>
         \<and> dragOffset s' = Some \<lparr>x = 5, y = 5\<rparr>
         \<and> position (strokes s' ! 1) = \<lparr>x = 15, y = 25\<rparr>
         \<and> x (position (strokes s' ! 1)) = 100 + (20 - 105)
         \<and> y (position (strokes s' ! 1)) = 100 + (30 - 105))"
proof -
  have p: "pointer_of (Some box_canvas) (TouchMove \<lparr>touches = [\<lparr>clientX = 28, clientY = 38\<rparr>]\<rparr>)
       = Some (20, 30)"
    by (simp add: touch_local_def box_canvas_def fsub_def round_double_ints)
  have pos: "position (strokes shifted_squares ! 1) = \<lparr>x = 100, y = 100\<rparr>"
    by (simp add: shifted_squares_def square_def)
  have f: "fsub 105 100 = 5" "fsub 20 5 = 15" "fsub 30 5 = 25"
    by (simp_all add: fsub_def round_double_ints)
  show ?thesis
    using drag_rigidity [of "MouseDown \<lparr>offsetX = 105, offsetY = 105\<rparr>" "Some box_canvas" 105 105
        shifted_squares 1
        "[MouseMove \<lparr>offsetX = 9, offsetY = 12\<rparr>,
          TouchMove \<lparr>touches = [\<lparr>clientX = 28, clientY = 38\<rparr>]\<rparr>]"]
      shifted_squares_hit p pos f
    by auto
qed

lemma nudged_hit:
  "findClickedStrokeIndex (Some box_canvas) (strokes nudged) dbl_0_2 1 = Some 0"
proof -
  have a: "fadd 0 dbl_0_1 = dbl_0_1"
    using round_double_exact [of dbl_0_1 3602879701896397 "- 55"]
    by (simp add: fadd_def dbl_0_1_def power_int_minus)
  have b: "fadd 1 dbl_0_1 = 2476979795053773 / 2251799813685248"
    by (simp add: fadd_def dbl_0_1_def round_double_eval [where e = 0] round_half_even_def)
  have i: "fadd 0 0 = 0" "fadd 1 0 = 1"
    by (simp_all add: fadd_def round_double_ints)
  have "isInsideStroke (Some box_canvas) (adjustedPoints (strokes nudged ! 0)) dbl_0_2 1"
    by (simp add: nudged_def square_def isInsideStroke_def adjustedPoints_def trace_path_def
        box_canvas_def box_isPointInPath_def a b i)
      (simp add: dbl_0_1_def dbl_0_2_def)
  moreover have "length (strokes nudged) = Suc 0"
    by (simp add: nudged_def)
  ultimately show ?thesis
    by (simp add: findClickedStrokeIndex_def)
qed

lemma doubles_sub:
  "fsub dbl_0_2 dbl_0_1 = dbl_0_1"
  "fsub dbl_0_9 dbl_0_1 = dbl_0_8"
  "fsub dbl_0_9 dbl_0_2 = dbl_0_7"
  "fadd dbl_0_1 dbl_0_7 = 7205759403792793 / 9007199254740992"
  by (simp_all add: fsub_def fadd_def dbl_0_1_def dbl_0_2_def dbl_0_7_def dbl_0_8_def dbl_0_9_def
      round_double_eval [where e = "- 4"] round_double_eval [where e = "- 1"]
      round_half_even_def power_int_minus)

text \<open>
  The unit square at the double 0.1 is grabbed at 0.2 and moved to 0.9. The code puts it
  at 0.8, which is neither the exact \<open>0.1 + (0.9 - 0.2)\<close> nor that sum in double
  arithmetic, 0.7999999999999999.
\<close>

theorem drag_rigidity_counterexample:
  "findClickedStrokeIndex (Some box_canvas) (strokes nudged) dbl_0_2 1 = Some 0
   \<and> position (strokes nudged ! 0) = \<lparr>x = dbl_0_1, y = 0\<rparr>
   \<and> run (Some box_canvas)
        [MouseDown \<lparr>offsetX = dbl_0_2, offsetY = 1\<rparr>,
         MouseMove \<lparr>offsetX = dbl_0_9, offsetY = 1\<rparr>] nudged
       = Inr (nudged\<lparr>strokes :=
                       [(square 0 0 1 ''#ff0000'')\<lparr>position := \<lparr>x = dbl_0_8, y = 0\<rparr>\<rparr>],
                     isDragging := True, draggedStrokeIndex := Some 0,
                     dragOffset := Some \<lparr>x = dbl_0_1, y = 1\<rparr>\<rparr>)
   \<and> dbl_0_8 \<noteq> dbl_0_1 + (dbl_0_9 - dbl_0_2)
   \<and> dbl_0_8 \<noteq> fadd dbl_0_1 (fsub dbl_0_9 dbl_0_2)"
proof -
  have pos: "position (strokes nudged ! 0) = \<lparr>x = dbl_0_1, y = 0\<rparr>"
    by (simp add: nudged_def)
  have i: "fsub 1 0 = 1" "fsub 1 1 = 0"
    by (simp_all add: fsub_def round_double_ints)
  have "handleMouseDown (Some box_canvas) \<lparr>offsetX = dbl_0_2, offsetY = 1\<rparr> nudged
          = nudged\<lparr>isDragging := True, draggedStrokeIndex := Some 0,
                   dragOffset := Some \<lparr>x = dbl_0_1, y = 1\<rparr>\<rparr>"
    using nudged_hit pos by (simp add: handleMouseDown_def doubles_sub i)
  then have "run (Some box_canvas)
        [MouseDown \<lparr>offsetX = dbl_0_2, offsetY = 1\<rparr>,
         MouseMove \<lparr>offsetX = dbl_0_9, offsetY = 1\<rparr>] nudged
       = Inr (nudged\<lparr>strokes :=
                       [(square 0 0 1 ''#ff0000'')\<lparr>position := \<lparr>x = dbl_0_8, y = 0\<rparr>\<rparr>],
                     isDragging := True, draggedStrokeIndex := Some 0,
                     dragOffset := Some \<lparr>x = dbl_0_1, y = 1\<rparr>\<rparr>)"
    by (simp add: handleMouseMove_def doubles_sub i repositionStroke_def nudged_def)
  moreover have "dbl_0_8 \<noteq> dbl_0_1 + (dbl_0_9 - dbl_0_2)"
    by (simp add: dbl_0_1_def dbl_0_2_def dbl_0_8_def dbl_0_9_def)
  moreover have "dbl_0_8 \<noteq> fadd dbl_0_1 (fsub dbl_0_9 dbl_0_2)"
    by (simp add: doubles_sub) (simp add: dbl_0_8_def)
  ultimately show ?thesis using nudged_hit pos by simp
qed

section \<open>Touch and mouse input\<close>

lemma step_corresponds: "corresponds c te me \<Longrightarrow> step c te s = step c me s"
proof (induction c te me rule: corresponds.induct)
  case (1 canvasRef t m)
  then show ?case
    by (auto simp: touch_local_def handleTouchStart_def handleMouseDown_def Let_def
        split: option.splits list.splits)
next
  case (2 canvasRef t m)
  then show ?case
    by (auto simp: touch_local_def handleTouchMove_def handleMouseMove_def Let_def
        split: option.splits list.splits sum.splits)
next
  case (3 canvasRef)
  then show ?case by (simp add: handleTouchEnd_def handleMouseUp_def)
qed simp_all

lemma run_corresponds:
  "list_all2 (corresponds c) tevs mevs \<Longrightarrow> run c tevs s = run c mevs s"
proof (induction tevs mevs arbitrary: s rule: list_all2_induct)
  case Nil
  then show ?case by simp
next
  case (Cons te tevs me mevs)
  then show ?case by (simp add: step_corresponds [of c te me] split: sum.splits)
qed

text \<open>
  C9. A sequence of touch events and a sequence of mouse events that correspond event by
  event, the canvas-local coordinates derived for each touch event being those of the
  mouse event, take the component through the same states: the two runs agree after
  every number of events, in the resulting state or in the failure.
\<close>

theorem touch_pointer_equivalence:
  assumes "list_all2 (corresponds c) tevs mevs"
  shows "run c tevs s = run c mevs s
         \<and> (\<forall>n. run c (take n tevs) s = run c (take n mevs) s)"
proof -
  have "list_all2 (corresponds c) (take n tevs) (take n mevs)" for n
    using assms by (rule list_all2_takeI)
  then show ?thesis using assms by (simp add: run_corresponds)
qed

theorem touch_pointer_equivalence_witness:
  "list_all2 (corresponds (Some box_canvas))
     [TouchStart \<lparr>touches = [\<lparr>clientX = 13, clientY = 13\<rparr>]\<rparr>,
      TouchMove \<lparr>touches = [\<lparr>clientX = 20, clientY = 30\<rparr>]\<rparr>, TouchEnd]
     [MouseDown \<lparr>offsetX = 5, offsetY = 5\<rparr>, MouseMove \<lparr>offsetX = 12, offsetY = 22\<rparr>, MouseUp]
   \<and> run (Some box_canvas)
        [TouchStart \<lparr>touches = [\<lparr>clientX = 13, clientY = 13\<rparr>]\<rparr>,
         TouchMove \<lparr>touches = [\<lparr>clientX = 20, clientY = 30\<rparr>]\<rparr>, TouchEnd] initial_state
     = run (Some box_canvas)
        [MouseDown \<lparr>offsetX = 5, offsetY = 5\<rparr>, MouseMove \<lparr>offsetX = 12, offsetY = 22\<rparr>, MouseUp]
        initial_state
   \<and> run (Some box_canvas)
        [MouseDown \<lparr>offsetX = 5, offsetY = 5\<rparr>, MouseMove \<lparr>offsetX = 12, offsetY = 22\<rparr>, MouseUp]
        initial_state
     = Inr (initial_state\<lparr>strokes :=
              [\<lparr>points = [\<lparr>x = 5, y = 5\<rparr>, \<lparr>x = 12, y = 22\<rparr>], color = ''#cdecde'',
                position = \<lparr>x = 0, y = 0\<rparr>\<rparr>]\<rparr>)"
proof -
  have c: "list_all2 (corresponds (Some box_canvas))
     [TouchStart \<lparr>touches = [\<lparr>clientX = 13, clientY = 13\<rparr>]\<rparr>,
      TouchMove \<lparr>touches = [\<lparr>clientX = 20, clientY = 30\<rparr>]\<rparr>, TouchEnd]
     [MouseDown \<lparr>offsetX = 5, offsetY = 5\<rparr>, MouseMove \<lparr>offsetX = 12, offsetY = 22\<rparr>, MouseUp]"
    by (simp add: touch_local_def box_canvas_def fsub_def round_double_ints)
  have r: "run (Some box_canvas)
        [MouseDown \<lparr>offsetX = 5, offsetY = 5\<rparr>, MouseMove \<lparr>offsetX = 12, offsetY = 22\<rparr>, MouseUp]
        initial_state
     = Inr (initial_state\<lparr>strokes :=
              [\<lparr>points = [\<lparr>x = 5, y = 5\<rparr>, \<lparr>x = 12, y = 22\<rparr>], color = ''#cdecde'',
                position = \<lparr>x = 0, y = 0\<rparr>\<rparr>]\<rparr>)"
    by (simp add: initial_state_def handleMouseDown_def findClickedStrokeIndex_def
        handleMouseMove_def liveFeedback_def box_canvas_def handleMouseUp_def)
  from touch_pointer_equivalence [OF c, of initial_state] c r show ?thesis by blast
qed

text \<open>
  Without a canvas a touch event has no local coordinates, and there the handlers part:
  the touch handler returns at once, the mouse handler starts a stroke.
\<close>

lemma touch_start_without_canvas:
  "touch_local None e = None \<and> handleTouchStart None e s = Inr s
   \<and> isDrawing (handleMouseDown None m s)"
proof -
  have "scan_from None ss px py n = None" for ss px py n
    by (simp add: scan_from_None_iff isInsideStroke_def)
  then show ?thesis
    by (simp add: touch_local_def handleTouchStart_def handleMouseDown_def
        findClickedStrokeIndex_def)
qed

section \<open>The draw buffer while drawing\<close>

lemma inv_step:
  assumes "step c ev s = Inr s'" and "isDrawing s \<longrightarrow> currentStroke s \<noteq> []"
  shows "isDrawing s' \<longrightarrow> currentStroke s' \<noteq> []"
proof (cases ev)
  case (MouseDown e)
  with assms show ?thesis
    by (auto simp: handleMouseDown_def Let_def split: option.splits)
next
  case (MouseMove e)
  with assms show ?thesis
    by (auto simp: handleMouseMove_def Let_def split: if_splits sum.splits)
next
  case MouseUp
  with assms show ?thesis by (auto simp: handleMouseUp_def split: if_splits)
next
  case MouseLeave
  with assms show ?thesis by (auto simp: handleMouseUp_def split: if_splits)
next
  case (TouchStart e)
  with assms show ?thesis
    by (auto simp: handleTouchStart_def Let_def split: option.splits list.splits)
next
  case (TouchMove e)
  with assms show ?thesis
    by (auto simp: handleTouchMove_def Let_def split: if_splits option.splits list.splits sum.splits)
next
  case TouchEnd
  with assms show ?thesis by (auto simp: handleTouchEnd_def split: if_splits)
next
  case UndoClick
  with assms show ?thesis by (auto simp: undo_def)
next
  case (ColorChange col)
  with assms show ?thesis by (auto simp: setFillColor_def)
next
  case (FileLoaded r)
  with assms show ?thesis
    by (auto simp: loadCustomFormat_def split: load_outcome.splits option.splits)
qed

lemma inv_run:
  "run c evs s = Inr s' \<Longrightarrow> isDrawing s \<longrightarrow> currentStroke s \<noteq> [] \<Longrightarrow>
     isDrawing s' \<longrightarrow> currentStroke s' \<noteq> []"
proof (induction evs arbitrary: s)
  case Nil
  then show ?case by simp
next
  case (Cons ev evs)
  then show ?case
    by (auto split: sum.splits dest: inv_step)
qed

text \<open>
  C10. In every state reached from the initial state by the event handlers, the draw
  buffer is non-empty whenever the component is drawing. So the read of the last buffered
  point in the live-feedback step finds a point, and no move handler fails on it: a mouse
  move always returns, and so does a touch move that carries a touch.
\<close>

theorem drawing_buffer_nonempty:
  assumes "run c evs initial_state = Inr s"
  shows "(isDrawing s \<longrightarrow> currentStroke s \<noteq> [])
         \<and> (isDrawing s \<longrightarrow>
              (\<forall>canvas px py. \<exists>segment. liveFeedback canvas (currentStroke s) px py = Inr segment))
         \<and> (\<forall>c' e. \<exists>s'. handleMouseMove c' e s = Inr s')
         \<and> (\<forall>c' e. touches e \<noteq> [] \<longrightarrow> (\<exists>s'. handleTouchMove c' e s = Inr s'))"
proof -
  have inv: "isDrawing s \<longrightarrow> currentStroke s \<noteq> []"
    using assms by (rule inv_run) (simp add: initial_state_def)
  have live: "\<exists>segment. liveFeedback canvas (currentStroke s) px py = Inr segment"
    if "isDrawing s" for canvas px py
    using inv that by (simp add: liveFeedback_def Let_def split: option.splits)
  have mouse: "\<exists>s'. handleMouseMove c' e s = Inr s'" for c' e
  proof (cases "isDrawing s")
    case True
    from live [OF True] obtain segment
      where "liveFeedback (the c') (currentStroke s) (offsetX e) (offsetY e) = Inr segment"
      by blast
    then show ?thesis by (simp add: handleMouseMove_def Let_def)
  next
    case False
    then show ?thesis by (simp add: handleMouseMove_def Let_def)
  qed
  have touch: "\<exists>s'. handleTouchMove c' e s = Inr s'" if "touches e \<noteq> []" for c' e
  proof -
    from that obtain t ts where ts: "touches e = t # ts" by (cases "touches e") auto
    show ?thesis
    proof (cases "isDrawing s")
      case True
      from live [OF True] obtain segment
        where "liveFeedback (the c') (currentStroke s) (fsub (clientX t) (rect_left (the c')))
                 (fsub (clientY t) (rect_top (the c'))) = Inr segment"
        by blast
      then show ?thesis
        by (simp add: handleTouchMove_def Let_def ts split: option.splits)
    next
      case False
      then show ?thesis by (simp add: handleTouchMove_def Let_def ts split: option.splits)
    qed
  qed
  show ?thesis using inv live mouse touch by blast
qed

theorem drawing_buffer_nonempty_witness:
  "run (Some box_canvas)
     [MouseDown \<lparr>offsetX = 5, offsetY = 5\<rparr>, MouseMove \<lparr>offsetX = 12, offsetY = 22\<rparr>]
     initial_state = Inr (tapped\<lparr>currentStroke := [\<lparr>x = 5, y = 5\<rparr>, \<lparr>x = 12, y = 22\<rparr>]\<rparr>)
   \<and> isDrawing (tapped\<lparr>currentStroke := [\<lparr>x = 5, y = 5\<rparr>, \<lparr>x = 12, y = 22\<rparr>]\<rparr>)
   \<and> currentStroke (tapped\<lparr>currentStroke := [\<lparr>x = 5, y = 5\<rparr>, \<lparr>x = 12, y = 22\<rparr>]\<rparr>) \<noteq> []
   \<and> liveFeedback box_canvas
        (currentStroke (tapped\<lparr>currentStroke := [\<lparr>x = 5, y = 5\<rparr>, \<lparr>x = 12, y = 22\<rparr>]\<rparr>)) 30 40
      = Inr [MoveTo 12 22, LineTo 30 40]"
proof -
  have r: "run (Some box_canvas)
     [MouseDown \<lparr>offsetX = 5, offsetY = 5\<rparr>, MouseMove \<lparr>offsetX = 12, offsetY = 22\<rparr>]
     initial_state = Inr (tapped\<lparr>currentStroke := [\<lparr>x = 5, y = 5\<rparr>, \<lparr>x = 12, y = 22\<rparr>]\<rparr>)"
    by (simp add: tapped_def initial_state_def handleMouseDown_def findClickedStrokeIndex_def
        handleMouseMove_def liveFeedback_def box_canvas_def)
  have d: "isDrawing (tapped\<lparr>currentStroke := [\<lparr>x = 5, y = 5\<rparr>, \<lparr>x = 12, y = 22\<rparr>]\<rparr>)"
    by (simp add: tapped_def)
  have l: "liveFeedback box_canvas
        (currentStroke (tapped\<lparr>currentStroke := [\<lparr>x = 5, y = 5\<rparr>, \<lparr>x = 12, y = 22\<rparr>]\<rparr>)) 30 40
      = Inr [MoveTo 12 22, LineTo 30 40]"
    by (simp add: liveFeedback_def box_canvas_def)
  from drawing_buffer_nonempty [OF r] d l r show ?thesis by blast
qed

section \<open>Saving and loading\<close>

lemma as_Point_to_json: "as_Point (Point_to_json p) = Some p"
  by (simp add: as_Point_def Point_to_json_def get_property_def)

lemma those_map_Some:
  "(\<And>v. v \<in> set xs \<Longrightarrow> f (g v) = Some v) \<Longrightarrow> those (map f (map g xs)) = Some xs"
  by (induction xs) simp_all

lemma as_Points_to_json: "as_Points (JArr (map Point_to_json ps)) = Some ps"
proof -
  have "those (map as_Point (map Point_to_json ps)) = Some ps"
    by (rule those_map_Some) (rule as_Point_to_json)
  then show ?thesis by (simp add: as_Points_def)
qed

lemma as_Stroke_to_json: "as_Stroke (Stroke_to_json stroke) = Some stroke"
  by (simp add: as_Stroke_def Stroke_to_json_def get_property_def as_Points_to_json
      as_Point_to_json)

lemma as_Strokes_to_json: "as_Strokes (Some (strokes_to_json ss)) = Some ss"
proof -
  have "those (map as_Stroke (map Stroke_to_json ss)) = Some ss"
    by (rule those_map_Some) (rule as_Stroke_to_json)
  then show ?thesis by (simp add: as_Strokes_def strokes_to_json_def)
qed

text \<open>
  C6. Saving a document and loading the file that was written gives back the stroke list:
  the value handed to \<^verbatim>\<open>setStrokes\<close> is the saved list, so the loaded stroke list equals
  the original one in length, in order and in the points, colour and position of every
  stroke, whatever the state into which it is loaded.
\<close>

theorem save_load_round_trip:
  "\<exists>text. saveAsCustomFormat (Some canvas) s = Some text
      \<and> loadedStrokes (loadCustomFormat_onload c' (Some text)) = Some (strokes_to_json (strokes s))
      \<and> loadCustomFormat c' (Some text) s' = Inr (s'\<lparr>strokes := strokes s\<rparr>)
      \<and> (\<exists>s''. loadCustomFormat c' (Some text) s' = Inr s'' \<and> strokes s'' = strokes s)"
  by (simp add: saveAsCustomFormat_def loadCustomFormat_def loadCustomFormat_onload_def
      JSON_stringify_def JSON_parse_def get_property_def as_Strokes_to_json Let_def)

text \<open>
  C2, as the code has it. When there is no text or the text is empty, loading returns at
  once: nothing changes and nothing is reported. When \<^verbatim>\<open>JSON.parse\<close> rejects a non-empty
  text, or the text denotes \<^verbatim>\<open>null\<close>, the exception leaves the callback and neither the
  stroke list nor the background is touched. In every other case the stroke list is
  replaced by the value of the field \<^verbatim>\<open>strokes\<close> of the record, which is not validated;
  when that value is a stroke list, it is the new stroke list.
\<close>

theorem load_outcomes:
  "(result = None \<or> result = Some EmptyText \<longrightarrow>
      loadCustomFormat_onload c result = LoadSkipped \<and> loadCustomFormat c result s = Inr s)
   \<and> (\<forall>text err. result = Some text \<and> text \<noteq> EmptyText \<and> JSON_parse text = Inl err \<longrightarrow>
         loadCustomFormat_onload c result = LoadThrew err \<and> loadCustomFormat c result s = Inl err)
   \<and> (result = Some (JsonText JNull) \<longrightarrow>
         (\<exists>err. loadCustomFormat_onload c result = LoadThrew err
                \<and> loadCustomFormat c result s = Inl err))
   \<and> (\<forall>text v. result = Some text \<and> JSON_parse text = Inr v \<and> v \<noteq> JNull \<longrightarrow>
         (\<exists>src. loadCustomFormat_onload c result = LoadApplied (get_property v ''strokes'') src)
         \<and> (\<forall>ss. as_Strokes (get_property v ''strokes'') = Some ss \<longrightarrow>
                loadCustomFormat c result s = Inr (s\<lparr>strokes := ss\<rparr>)))"
  by (auto simp: loadCustomFormat_def loadCustomFormat_onload_def JSON_parse_def Let_def
      split: file_text.splits)

theorem load_outcomes_witness:
  "loadCustomFormat (Some box_canvas) None two_squares = Inr two_squares
   \<and> NotJSON \<noteq> EmptyText \<and> JSON_parse NotJSON = Inl (SyntaxError ''Unexpected token'')
   \<and> loadCustomFormat (Some box_canvas) (Some NotJSON) two_squares
       = Inl (SyntaxError ''Unexpected token'')
   \<and> (\<exists>err. loadCustomFormat (Some box_canvas) (Some (JsonText JNull)) two_squares = Inl err)
   \<and> JSON_parse (JsonText (JObj [(''strokes'', JArr [])])) = Inr (JObj [(''strokes'', JArr [])])
   \<and> JObj [(''strokes'', JArr [])] \<noteq> JNull
   \<and> as_Strokes (get_property (JObj [(''strokes'', JArr [])]) ''strokes'') = Some []
   \<and> loadCustomFormat (Some box_canvas) (Some (JsonText (JObj [(''strokes'', JArr [])]))) two_squares
       = Inr (two_squares\<lparr>strokes := []\<rparr>)"
proof -
  have p1: "JSON_parse NotJSON = Inl (SyntaxError ''Unexpected token'')"
    and p2: "JSON_parse (JsonText (JObj [(''strokes'', JArr [])])) = Inr (JObj [(''strokes'', JArr [])])"
    by (simp_all add: JSON_parse_def)
  have a: "as_Strokes (get_property (JObj [(''strokes'', JArr [])]) ''strokes'') = Some []"
    by (simp add: as_Strokes_def get_property_def)
  show ?thesis
    using load_outcomes [of None "Some box_canvas" two_squares]
      load_outcomes [of "Some NotJSON" "Some box_canvas" two_squares]
      load_outcomes [of "Some (JsonText JNull)" "Some box_canvas" two_squares]
      load_outcomes [of "Some (JsonText (JObj [(''strokes'', JArr [])]))" "Some box_canvas" two_squares]
      p1 p2 a
    by auto
qed

text \<open>
  Two files on which the load does not abort with a report. The empty file: \<^verbatim>\<open>JSON.parse\<close>
  would reject it, and the load returns without a failure. The record \<^verbatim>\<open>{"strokes": []}\<close>:
  it has no background image, yet the two strokes of the document are replaced by none,
  and the image that is loaded for the background has the source \<^verbatim>\<open>undefined\<close>.
\<close>

theorem load_outcomes_counterexample:
  "JSON_parse EmptyText = Inl (SyntaxError ''Unexpected end of JSON input'')
   \<and> loadCustomFormat (Some box_canvas) (Some EmptyText) two_squares = Inr two_squares
   \<and> \<not> well_formed_record (JObj [(''strokes'', JArr [])])
   \<and> strokes two_squares \<noteq> []
   \<and> loadCustomFormat (Some box_canvas) (Some (JsonText (JObj [(''strokes'', JArr [])]))) two_squares
       = Inr (two_squares\<lparr>strokes := []\<rparr>)
   \<and> img_src (loadCustomFormat_onload (Some box_canvas)
                (Some (JsonText (JObj [(''strokes'', JArr [])])))) = Some None"
  by (simp add: JSON_parse_def loadCustomFormat_def loadCustomFormat_onload_def
      well_formed_record_def get_property_def as_Strokes_def two_squares_def box_canvas_def)

section \<open>Repositioning a stroke\<close>

lemma those_Some_iff: "those xs = Some ys \<longleftrightarrow> xs = map Some ys"
proof (induction xs arbitrary: ys)
  case Nil
  then show ?case by auto
next
  case (Cons a xs)
  then show ?case by (cases a) (auto split: option.splits)
qed

lemma deref_Some_less: "deref h r = Some c \<Longrightarrow> r < length h"
  by (simp add: deref_def split: if_splits)

lemma deref_append: "r < length h \<Longrightarrow> deref (h @ h') r = deref h r"
  by (simp add: deref_def nth_append)

lemma map_reposition_miss:
  "d < index \<Longrightarrow> map_reposition d np index rs h = Some (rs, h)"
  by (induction rs arbitrary: index) simp_all

lemma map_reposition_hit:
  "index \<le> d \<Longrightarrow> d - index < length rs \<Longrightarrow>
   deref h (rs ! (d - index)) = Some (StrokeObject pr col pos) \<Longrightarrow>
   map_reposition d np index rs h =
     Some (rs[(d - index) := length h], h @ [StrokeObject pr col np])"
proof (induction rs arbitrary: index)
  case Nil
  then show ?case by simp
next
  case (Cons r rs)
  show ?case
  proof (cases "index = d")
    case True
    with Cons.prems show ?thesis
      by (simp add: alloc_def map_reposition_miss)
  next
    case False
    with Cons.prems have lt: "Suc index \<le> d" by simp
    then have eq: "d - index = Suc (d - Suc index)" by simp
    have "map_reposition d np (Suc index) rs h =
            Some (rs[(d - Suc index) := length h], h @ [StrokeObject pr col np])"
      using Cons.prems lt by (intro Cons.IH) (simp_all add: eq)
    with False show ?thesis by (simp add: eq)
  qed
qed

lemma repositionStroke_heap_eq:
  assumes "deref h prev = Some (StrokeArray rs)" and "i < length rs"
    and "deref h (rs ! i) = Some (StrokeObject pr col pos)"
  shows "repositionStroke_heap i np prev h =
           Some (length h, h @ [StrokeArray (rs[i := Suc (length h)]), StrokeObject pr col np])"
proof -
  have "rs ! i < length h" using assms(3) by (rule deref_Some_less)
  then have "deref (h @ [StrokeArray []]) (rs ! i) = Some (StrokeObject pr col pos)"
    using assms(3) by (simp add: deref_append)
  then have "map_reposition i np 0 rs (h @ [StrokeArray []]) =
        Some (rs[i := Suc (length h)], (h @ [StrokeArray []]) @ [StrokeObject pr col np])"
    using map_reposition_hit [of 0 i rs "h @ [StrokeArray []]" pr col pos np] assms(2) by simp
  then show ?thesis
    using assms(1) by (simp add: repositionStroke_heap_def alloc_def list_update_append)
qed

lemma repositionStroke_update:
  "i < length ss \<Longrightarrow> repositionStroke i np ss = ss[i := (ss ! i)\<lparr>position := np\<rparr>]"
  by (rule nth_equalityI) (simp_all add: length_repositionStroke nth_repositionStroke)

lemma read_Stroke_append: "read_Stroke h r = Some st \<Longrightarrow> read_Stroke (h @ h') r = Some st"
  by (auto simp: read_Stroke_def deref_def nth_append split: if_splits cell.splits)


text \<open>
  C4. Repositioning stroke \<open>i\<close> of a stroke list, for a valid index \<open>i\<close>, returns a new
  array: its reference is fresh, so it is not the previous array, and nothing that was
  allocated before is changed, the previous array included. The new array holds the same
  stroke objects as the previous one at every index other than \<open>i\<close>. At index \<open>i\<close> it
  holds an object whose \<^verbatim>\<open>points\<close> field is the same reference as before, whose colour
  is the same and whose position is the new one. Read as values, the new list is the old
  one with the position of stroke \<open>i\<close> replaced.
\<close>

theorem reposition_frame:
  assumes "read_strokes h prev = Some ss" and "i < length ss"
  shows "\<exists>a h'. repositionStroke_heap i newPosition prev h = Some (a, h')
           \<and> a \<noteq> prev \<and> deref h a = None
           \<and> (\<forall>r<length h. deref h' r = deref h r)
           \<and> read_strokes h' prev = Some ss
           \<and> length (elements h' a) = length (elements h prev)
           \<and> (\<forall>j<length ss. j \<noteq> i \<longrightarrow> elements h' a ! j = elements h prev ! j)
           \<and> points_ref h' (elements h' a ! i) = points_ref h (elements h prev ! i)
           \<and> points_ref h (elements h prev ! i) \<noteq> None
           \<and> read_strokes h' a = Some (repositionStroke i newPosition ss)
           \<and> repositionStroke i newPosition ss = ss[i := (ss ! i)\<lparr>position := newPosition\<rparr>]
           \<and> points (repositionStroke i newPosition ss ! i) = points (ss ! i)
           \<and> color (repositionStroke i newPosition ss ! i) = color (ss ! i)
           \<and> position (repositionStroke i newPosition ss ! i) = newPosition"
proof -
  from assms(1) obtain rs where rs: "deref h prev = Some (StrokeArray rs)"
    and m: "map (read_Stroke h) rs = map Some ss"
    by (auto simp: read_strokes_def those_Some_iff split: option.splits cell.splits)
  from m have len: "length rs = length ss"
    by (metis length_map)
  have rd: "read_Stroke h (rs ! j) = Some (ss ! j)" if "j < length ss" for j
    using that len m by (metis nth_map)
  from rd [OF assms(2)] obtain pr col pos ps
    where obj: "deref h (rs ! i) = Some (StrokeObject pr col pos)"
      and pts: "deref h pr = Some (PointArray ps)"
      and ssi: "ss ! i = \<lparr>points = ps, color = col, position = pos\<rparr>"
    by (auto simp: read_Stroke_def split: option.splits cell.splits)
  let ?rs' = "rs[i := Suc (length h)]"
  let ?h' = "h @ [StrokeArray ?rs', StrokeObject pr col newPosition]"
  have res: "repositionStroke_heap i newPosition prev h = Some (length h, ?h')"
    using rs assms(2) obj len by (intro repositionStroke_heap_eq) simp_all
  have prev: "prev < length h" using rs by (rule deref_Some_less)
  have pr: "pr < length h" using pts by (rule deref_Some_less)
  have el: "elements h prev = rs" using rs by (simp add: elements_def)
  have el': "elements ?h' (length h) = ?rs'" by (simp add: elements_def deref_def)
  have fresh: "deref h (length h) = None" by (simp add: deref_def)
  have old: "deref ?h' r = deref h r" if "r < length h" for r
    using that by (rule deref_append)
  have upd: "repositionStroke i newPosition ss = ss[i := (ss ! i)\<lparr>position := newPosition\<rparr>]"
    using assms(2) by (rule repositionStroke_update)
  have rd': "read_Stroke ?h' (?rs' ! j) = Some (ss[i := (ss ! i)\<lparr>position := newPosition\<rparr>] ! j)"
    if "j < length ss" for j
  proof (cases "j = i")
    case True
    have "deref ?h' (Suc (length h)) = Some (StrokeObject pr col newPosition)"
      by (simp add: deref_def nth_append)
    moreover have "deref ?h' pr = Some (PointArray ps)"
      using old [OF pr] pts by simp
    ultimately show ?thesis
      using True that len ssi by (simp add: read_Stroke_def)
  next
    case False
    with that rd [OF that] show ?thesis
      by (simp add: read_Stroke_append)
  qed
  have "map (read_Stroke ?h') ?rs' = map Some (ss[i := (ss ! i)\<lparr>position := newPosition\<rparr>])"
    using len rd' by (intro nth_equalityI) simp_all
  moreover have "deref ?h' (length h) = Some (StrokeArray ?rs')"
    by (simp add: deref_def)
  ultimately have new: "read_strokes ?h' (length h) = Some (repositionStroke i newPosition ss)"
    by (simp add: read_strokes_def those_Some_iff upd)
  have "map (read_Stroke ?h') rs = map Some ss"
    using len rd by (intro nth_equalityI) (simp_all add: read_Stroke_append)
  then have keep: "read_strokes ?h' prev = Some ss"
    using old [OF prev] rs by (simp add: read_strokes_def those_Some_iff)
  have others: "?rs' ! j = rs ! j" if "j \<noteq> i" for j
    using that by simp
  have pref: "points_ref ?h' (?rs' ! i) = points_ref h (rs ! i)"
    and pref_some: "points_ref h (rs ! i) \<noteq> None"
    using obj assms(2) len by (simp_all add: points_ref_def deref_def nth_append)
  have fields: "points (repositionStroke i newPosition ss ! i) = points (ss ! i)
           \<and> color (repositionStroke i newPosition ss ! i) = color (ss ! i)
           \<and> position (repositionStroke i newPosition ss ! i) = newPosition"
    using assms(2) by (simp add: nth_repositionStroke)
  show ?thesis
    using res prev fresh old keep el el' others pref pref_some new upd fields
    by (intro exI [of _ "length h"] exI [of _ ?h']) simp
qed

theorem reposition_frame_witness:
  "read_strokes two_strokes_heap 4 =
     Some [\<lparr>points = [\<lparr>x = 0, y = 0\<rparr>, \<lparr>x = 3, y = 4\<rparr>], color = ''#ff0000'',
             position = \<lparr>x = 0, y = 0\<rparr>\<rparr>,
           \<lparr>points = [\<lparr>x = 5, y = 5\<rparr>], color = ''#00ff00'', position = \<lparr>x = 1, y = 1\<rparr>\<rparr>]
   \<and> (\<exists>a h'. repositionStroke_heap 1 \<lparr>x = 7, y = 9\<rparr> 4 two_strokes_heap = Some (a, h')
          \<and> a \<noteq> 4
          \<and> elements h' a ! 0 = 1
          \<and> points_ref h' (elements h' a ! 1) = Some 2
          \<and> read_strokes h' a =
              Some [\<lparr>points = [\<lparr>x = 0, y = 0\<rparr>, \<lparr>x = 3, y = 4\<rparr>], color = ''#ff0000'',
                      position = \<lparr>x = 0, y = 0\<rparr>\<rparr>,
                    \<lparr>points = [\<lparr>x = 5, y = 5\<rparr>], color = ''#00ff00'',
                      position = \<lparr>x = 7, y = 9\<rparr>\<rparr>])"
proof -
  let ?ss = "[\<lparr>points = [\<lparr>x = 0, y = 0\<rparr>, \<lparr>x = 3, y = 4\<rparr>], color = ''#ff0000'',
             position = \<lparr>x = 0, y = 0\<rparr>\<rparr>,
           \<lparr>points = [\<lparr>x = 5, y = 5\<rparr>], color = ''#00ff00'', position = \<lparr>x = 1, y = 1\<rparr>\<rparr>]"
  have r: "read_strokes two_strokes_heap 4 = Some ?ss"
    by (simp add: read_strokes_def read_Stroke_def deref_def two_strokes_heap_def)
  have l: "1 < length ?ss" by simp
  have e: "elements two_strokes_heap 4 = [1, 3]"
    by (simp add: elements_def deref_def two_strokes_heap_def)
  have p: "points_ref two_strokes_heap 3 = Some 2"
    by (simp add: points_ref_def deref_def two_strokes_heap_def)
  from reposition_frame [OF r l, of "\<lparr>x = 7, y = 9\<rparr>"] e p r show ?thesis
    by auto
qed

end
